theory Spec2Isabelle
  imports Complex_Main "HOL-Library.Log_Nat" "HOL-Library.Word"
begin

unbundle bit_operations_syntax

section \<open>Data model\<close>

text \<open>
  The Go types of the decoder. \<open>uint8\<close> and \<open>uint64\<close> are words; \<open>int64\<close> is a 64-bit
  word read through \<open>sint\<close> (two's complement, additions wrap). Go's \<open>int\<close> and \<open>uint\<close>
  are the 64-bit ones. A finite \<open>float64\<close> is modelled by the rational it holds, and every
  float operation rounds its exact result to the nearest \<open>float64\<close> (\<open>float64_round\<close>
  below).
\<close>

type_synonym uint8 = "8 word"
type_synonym uint64 = "64 word"
type_synonym int64 = "64 word"
type_synonym float64 = rat

type_synonym BBox = "float64 list"
type_synonym GeomType = uint8
type_synonym Coordinate = "float64 list"
type_synonym LinearRing = "Coordinate list"

abbreviation (input) POINT :: GeomType where "POINT \<equiv> 1"
abbreviation (input) LINESTRING :: GeomType where "LINESTRING \<equiv> 2"
abbreviation (input) POLYGON :: GeomType where "POLYGON \<equiv> 3"
abbreviation (input) MULTIPOINT :: GeomType where "MULTIPOINT \<equiv> 4"
abbreviation (input) MULTILINESTRING :: GeomType where "MULTILINESTRING \<equiv> 5"
abbreviation (input) MULTIPOLYGON :: GeomType where "MULTIPOLYGON \<equiv> 6"
abbreviation (input) GEOMETRYCOLLECTION :: GeomType where "GEOMETRYCOLLECTION \<equiv> 7"

abbreviation (input) XY :: uint8 where "XY \<equiv> 0"
abbreviation (input) XYZ :: uint8 where "XYZ \<equiv> 1"
abbreviation (input) XYM :: uint8 where "XYM \<equiv> 2"
abbreviation (input) XYZM :: uint8 where "XYZM \<equiv> 3"

text \<open>The flag masks \<open>bbox\<close>, \<open>size\<close>, \<open>idlist\<close>, \<open>exprec\<close> and \<open>empty\<close>.\<close>

abbreviation (input) bbox_mask :: uint8 where "bbox_mask \<equiv> 0x01"
abbreviation (input) size_mask :: uint8 where "size_mask \<equiv> 0x02"
abbreviation (input) idlist_mask :: uint8 where "idlist_mask \<equiv> 0x04"
abbreviation (input) exprec_mask :: uint8 where "exprec_mask \<equiv> 0x08"
abbreviation (input) empty_mask :: uint8 where "empty_mask \<equiv> 0x10"

text \<open>\<open>Hdr\<close> of types.go; a nil \<open>BBox\<close> is \<open>None\<close>.\<close>

record Hdr =
  gtype :: GeomType
  dim :: uint8
  bbox :: "BBox option"

text \<open>
  The geometry structs embed a \<open>*Hdr\<close>, which may be nil (\<open>None\<close>). The interface
  \<open>Geometry\<close> is the sum of the types that implement it; \<open>*Hdr\<close> itself is one of them
  (the last \<open>return\<close> of \<open>Decode\<close>).
\<close>

datatype Point = Point (Point_Hdr: "Hdr option") (Coord: Coordinate)

datatype LineString = LineString (LineString_Hdr: "Hdr option") (Coords: "Coordinate list")

datatype Polygon = Polygon (Polygon_Hdr: "Hdr option") (Rings: "LinearRing list")

datatype MultiPoint =
  MultiPoint (MultiPoint_Hdr: "Hdr option") (MultiPoint_Ids: "int64 list") (Points: "Point list")

datatype MultiLineString =
  MultiLineString (MultiLineString_Hdr: "Hdr option") (MultiLineString_Ids: "int64 list")
    (LineStrings: "LineString list")

datatype MultiPolygon =
  MultiPolygon (MultiPolygon_Hdr: "Hdr option") (MultiPolygon_Ids: "int64 list")
    (Polygons: "Polygon list")

datatype Geometry =
    Geom_Hdr Hdr
  | Geom_Point Point
  | Geom_LineString LineString
  | Geom_Polygon Polygon
  | Geom_MultiPoint MultiPoint
  | Geom_MultiLineString MultiLineString
  | Geom_MultiPolygon MultiPolygon
  | GeometryCollection "Hdr option" "int64 list" "Geometry list"

text \<open>
  \<open>Type()\<close> and \<open>Dim()\<close> are methods of \<open>*Hdr\<close>, promoted to every struct that embeds
  one. On a nil \<open>*Hdr\<close> they dereference nil and panic: \<open>None\<close>.
\<close>

definition Hdr_Type :: "Hdr option \<Rightarrow> GeomType option" where
  "Hdr_Type h = (case h of None \<Rightarrow> None | Some hdr \<Rightarrow> Some (gtype hdr))"

definition Hdr_Dim :: "Hdr option \<Rightarrow> uint8 option" where
  "Hdr_Dim h = (case h of None \<Rightarrow> None | Some hdr \<Rightarrow> Some (dim hdr))"

fun Geometry_Hdr :: "Geometry \<Rightarrow> Hdr option" where
  "Geometry_Hdr (Geom_Hdr h) = Some h"
| "Geometry_Hdr (Geom_Point p) = Point_Hdr p"
| "Geometry_Hdr (Geom_LineString l) = LineString_Hdr l"
| "Geometry_Hdr (Geom_Polygon p) = Polygon_Hdr p"
| "Geometry_Hdr (Geom_MultiPoint m) = MultiPoint_Hdr m"
| "Geometry_Hdr (Geom_MultiLineString m) = MultiLineString_Hdr m"
| "Geometry_Hdr (Geom_MultiPolygon m) = MultiPolygon_Hdr m"
| "Geometry_Hdr (GeometryCollection h ids gs) = h"

definition Type :: "Geometry \<Rightarrow> GeomType option" where
  "Type g = Hdr_Type (Geometry_Hdr g)"

definition Dim :: "Geometry \<Rightarrow> uint8 option" where
  "Dim g = Hdr_Dim (Geometry_Hdr g)"

section \<open>The decoder\<close>

text \<open>
  The reader \<open>r\<close> is the list of the bytes not yet read. The arrays \<open>refpoint\<close> and
  \<open>factors\<close> are lists of length 4. The fields \<open>bbox\<close>, \<open>size\<close>, \<open>idlist\<close>, \<open>empty\<close> and
  \<open>length\<close> carry the suffix \<open>_d\<close>.
\<close>

record decoder =
  r :: "uint8 list"
  refpoint :: "int64 list"
  factors :: "int64 list"
  ndims :: nat
  bbox_d :: bool
  size_d :: bool
  idlist_d :: bool
  empty_d :: bool
  length_d :: uint64

record mhdr =
  idlist :: "int64 list"
  ngeoms :: int

text \<open>
  What a call can end with besides a value: the two errors the package returns
  (\<open>ErrUnknownGeom\<close>, and \<open>io.EOF\<close> of a read at the end of the input) and the run-time
  panic of \<open>make\<close> on a length out of range, which no caller recovers.
\<close>

datatype err = ErrUnknownGeom | EOF | PanicMakeSliceLen

text \<open>
  A method of the decoder mutates it and returns a value or an error: the model returns
  the outcome together with the decoder as the call leaves it.
\<close>

type_synonym 'a result = "(err + 'a) \<times> decoder"

text \<open>\<open>d.read(&v)\<close> for a \<open>uint8\<close>: \<open>binary.Read\<close> of one byte.\<close>

definition read :: "decoder \<Rightarrow> uint8 result" where
  "read d = (case r d of [] \<Rightarrow> (Inl EOF, d) | b # bs \<Rightarrow> (Inr b, d\<lparr>r := bs\<rparr>))"

text \<open>
  \<open>make([]T, len)\<close> panics when \<open>len\<close> is negative or \<open>len\<close> elements of \<open>elemsize\<close> bytes
  exceed \<open>maxAlloc\<close> (2^48 bytes on 64-bit Linux); memory within that bound is taken
  to be available.
\<close>

definition maxAlloc :: int where
  "maxAlloc = 2 ^ 48"

definition makeslice_ok :: "int \<Rightarrow> int \<Rightarrow> bool" where
  "makeslice_ok elemsize len \<longleftrightarrow> 0 \<le> len \<and> elemsize * len \<le> maxAlloc"

subsection \<open>Zigzag and varints\<close>

definition unzigzag :: "uint64 \<Rightarrow> int64" where
  "unzigzag nVal =
     (if nVal AND 1 = 0 then drop_bit 1 nVal else - (drop_bit 1 nVal) - 1)"

lemma read_shorter: "read d = (Inr b, d') \<Longrightarrow> length (r d') < length (r d)"
  by (auto simp: read_def split: list.splits)

function readVarInt64_loop :: "uint64 \<Rightarrow> uint64 \<Rightarrow> decoder \<Rightarrow> uint64 result" where
  "readVarInt64_loop val shift d =
     (case read d of
        (Inl e, d') \<Rightarrow> (Inl e, d')
      | (Inr byte, d') \<Rightarrow>
          if byte AND 0x80 = 0
          then (Inr (val OR push_bit (unat shift) (ucast byte)), d')
          else readVarInt64_loop
                 (val OR push_bit (unat shift) (ucast byte AND 0x7f)) (shift + 7) d')"
  by pat_completeness auto
termination
  by (relation "measure (\<lambda>(val, shift, d). length (r d))") (auto dest: read_shorter [OF sym])

definition readVarInt64 :: "decoder \<Rightarrow> uint64 result" where
  "readVarInt64 d = readVarInt64_loop 0 0 d"

definition readVarSInt64 :: "decoder \<Rightarrow> int64 result" where
  "readVarSInt64 d =
     (case readVarInt64 d of
        (Inl e, d') \<Rightarrow> (Inl e, d')
      | (Inr val, d') \<Rightarrow> (Inr (unzigzag val), d'))"

subsection \<open>Float arithmetic\<close>

text \<open>
  IEEE 754 binary64, rounding to nearest, ties to the even significand: a significand of
  53 bits, and the least exponent \<open>-1074\<close> of the subnormal numbers. \<open>binary_exponent q\<close>
  is the \<open>e\<close> with \<open>2^e \<le> q < 2^(e+1)\<close> for a positive \<open>q\<close>.
\<close>

definition pow2 :: "int \<Rightarrow> rat" where
  "pow2 e = (if 0 \<le> e then 2 ^ nat e else 1 / 2 ^ nat (- e))"

definition binary_exponent :: "rat \<Rightarrow> int" where
  "binary_exponent q =
     (case quotient_of q of
        (a, b) \<Rightarrow> let k = bitlen a - bitlen b in if pow2 k \<le> q then k else k - 1)"

definition round_half_even :: "rat \<Rightarrow> int" where
  "round_half_even q =
     (let n = \<lfloor>q\<rfloor>; f = q - of_int n
      in if f < 1 / 2 then n else if 1 / 2 < f then n + 1 else if even n then n else n + 1)"

definition float64_round :: "rat \<Rightarrow> float64" where
  "float64_round q =
     (if q = 0 then 0
      else let e = max (binary_exponent \<bar>q\<bar> - 52) (- 1074)
           in sgn q * of_int (round_half_even (\<bar>q\<bar> / pow2 e)) * pow2 e)"

text \<open>
  The float operations of the decoder: \<open>float64(v)\<close> of an \<open>int64\<close>, the division
  \<open>x / y\<close>, \<open>math.Pow10\<close>, \<open>int64(f)\<close> (truncation towards zero), the comparisons (those
  of the rationals), and the constants \<open>math.MaxInt64\<close> and \<open>math.MinInt64\<close> converted to
  \<open>float64\<close> by the assignment \<open>bbox[idx] = math.MaxInt64\<close>: the first becomes \<open>2^63\<close>.

  The values that do not fit the model are the infinities and NaN. Go's division gives
  them for a divisor 0 and no other operation of the decoder does: a converted \<open>int64\<close>
  is at most \<open>2^63\<close> in magnitude, and so is its quotient by a converted \<open>int64\<close> other
  than 0. The decoder divides by the factors of the dimensions in use, which are powers
  \<open>10^0\<close> to \<open>10^7\<close> after any header (\<open>decodeHeader_factors\<close> below), so that on every
  input the divisor is not 0; \<open>float64_div\<close> by 0 is 0 as the division of the rationals
  is. \<open>math.Pow10\<close> is called on exponents from 0 to 7, where it is the exact power.
\<close>

definition float64_of_int64 :: "int64 \<Rightarrow> float64" where
  "float64_of_int64 v = float64_round (of_int (sint v))"

definition float64_div :: "float64 \<Rightarrow> float64 \<Rightarrow> float64" where
  "float64_div x y = float64_round (x / y)"

definition Pow10 :: "int \<Rightarrow> float64" where
  "Pow10 n = float64_round (if 0 \<le> n then 10 ^ nat n else 1 / 10 ^ nat (- n))"

definition int64_of_float64 :: "float64 \<Rightarrow> int64" where
  "int64_of_float64 f = word_of_int (if 0 \<le> f then \<lfloor>f\<rfloor> else \<lceil>f\<rceil>)"

definition MaxInt64 :: float64 where
  "MaxInt64 = float64_round 9223372036854775807"

definition MinInt64 :: float64 where
  "MinInt64 = float64_round (- 9223372036854775808)"

subsection \<open>Coordinates\<close>

text \<open>
  The inner loop of \<open>readCoords\<close> over the dimensions \<open>j\<close> of one coordinate: the delta is
  added to \<open>d.refpoint[j]\<close>, the sum divided by \<open>d.factors[j]\<close> is the value, and the
  bounding box, when there is one, is widened to it.
\<close>

fun readCoords_dims :: "nat list \<Rightarrow> decoder \<Rightarrow> Coordinate \<Rightarrow> BBox option
    \<Rightarrow> (Coordinate \<times> BBox option) result" where
  "readCoords_dims [] d coord bb = (Inr (coord, bb), d)"
| "readCoords_dims (j # js) d coord bb =
     (case readVarSInt64 d of
        (Inl e, d') \<Rightarrow> (Inl e, d')
      | (Inr val, d') \<Rightarrow>
          let d'' = d'\<lparr>refpoint := (refpoint d')[j := refpoint d' ! j + val]\<rparr>;
              c = float64_div (float64_of_int64 (refpoint d'' ! j)) (float64_of_int64 (factors d'' ! j));
              bb' = (case bb of
                         None \<Rightarrow> None
                       | Some b \<Rightarrow>
                           let b1 = (if c < b ! j then b[j := c] else b);
                               b2 = (if c > b1 ! (j + ndims d'')
                                     then b1[j + ndims d'' := c] else b1)
                           in Some b2)
          in readCoords_dims js d'' (coord[j := c]) bb')"

text \<open>The outer loop of \<open>readCoords\<close> over the \<open>size\<close> coordinates.\<close>

fun readCoords_loop :: "nat \<Rightarrow> decoder \<Rightarrow> BBox option
    \<Rightarrow> (Coordinate list \<times> BBox option) result" where
  "readCoords_loop 0 d bb = (Inr ([], bb), d)"
| "readCoords_loop (Suc n) d bb =
     (case readCoords_dims [0..<ndims d] d (replicate (ndims d) 0) bb of
        (Inl e, d') \<Rightarrow> (Inl e, d')
      | (Inr (coord, bb'), d') \<Rightarrow>
          (case readCoords_loop n d' bb' of
             (Inl e, d'') \<Rightarrow> (Inl e, d'')
           | (Inr (coords, bb''), d'') \<Rightarrow> (Inr (coord # coords, bb''), d'')))"

text \<open>
  \<open>readCoords(d, size)\<close>: a \<open>Coordinate\<close> is a slice header of 24 bytes. Without the bbox
  flag the box starts at \<open>MaxInt64\<close> for every minimum and \<open>MinInt64\<close> for every maximum.
\<close>

definition readCoords :: "decoder \<Rightarrow> int \<Rightarrow> (Coordinate list \<times> BBox option) result" where
  "readCoords d sz =
     (if \<not> makeslice_ok 24 sz then (Inl PanicMakeSliceLen, d)
      else readCoords_loop (nat sz) d
             (if \<not> bbox_d d
              then Some (replicate (ndims d) MaxInt64 @ replicate (ndims d) MinInt64)
              else None))"

subsection \<open>Point, LineString, Polygon\<close>

definition decodePoint :: "decoder \<Rightarrow> Hdr option \<Rightarrow> Point result" where
  "decodePoint d h =
     (case readCoords d 1 of
        (Inl e, d') \<Rightarrow> (Inl e, d')
      | (Inr (coords, bb'), d') \<Rightarrow>
          (case h of
             Some hdr \<Rightarrow>
               (Inr (Point (Some (case bb' of
                                    Some b \<Rightarrow> hdr\<lparr>bbox := Some b\<rparr>
                                  | None \<Rightarrow> hdr))
                      (coords ! 0)), d')
           | None \<Rightarrow> (Inr (Point None (coords ! 0)), d')))"

definition decodeLineString :: "decoder \<Rightarrow> Hdr option \<Rightarrow> LineString result" where
  "decodeLineString d h =
     (case readVarInt64 d of
        (Inl e, d') \<Rightarrow> (Inl e, d')
      | (Inr sz, d') \<Rightarrow>
          (case readCoords d' (sint sz) of
             (Inl e, d'') \<Rightarrow> (Inl e, d'')
           | (Inr (coords, bb'), d'') \<Rightarrow>
               (case h of
                  Some hdr \<Rightarrow>
                    (Inr (LineString (Some (case bb' of
                                              Some b \<Rightarrow> hdr\<lparr>bbox := Some b\<rparr>
                                            | None \<Rightarrow> hdr))
                           coords), d'')
                | None \<Rightarrow> (Inr (LineString None coords), d''))))"

text \<open>
  The ring loop of \<open>decodePolygon\<close>. The error of \<open>readCoords\<close> is assigned to \<open>err\<close> and
  not tested: the ring is the nil slice \<open>readCoords\<close> returned and the loop goes on. A
  panic is not an error value and unwinds the call.
\<close>

fun decodePolygon_loop :: "nat \<Rightarrow> decoder \<Rightarrow> LinearRing list result" where
  "decodePolygon_loop 0 d = (Inr [], d)"
| "decodePolygon_loop (Suc n) d =
     (case readVarInt64 d of
        (Inl e, d') \<Rightarrow> (Inl e, d')
      | (Inr ringSize, d') \<Rightarrow>
          (case readCoords d' (sint ringSize) of
             (Inl PanicMakeSliceLen, d'') \<Rightarrow> (Inl PanicMakeSliceLen, d'')
           | (res, d'') \<Rightarrow>
               (case decodePolygon_loop n d'' of
                  (Inl e, d3) \<Rightarrow> (Inl e, d3)
                | (Inr rings, d3) \<Rightarrow>
                    (Inr ((case res of Inl e \<Rightarrow> [] | Inr (coords, bb') \<Rightarrow> coords) # rings),
                     d3))))"

text \<open>\<open>make([]LinearRing, size)\<close> takes the \<open>uint64\<close> itself as the length.\<close>

definition decodePolygon :: "decoder \<Rightarrow> Hdr option \<Rightarrow> Polygon result" where
  "decodePolygon d h =
     (case readVarInt64 d of
        (Inl e, d') \<Rightarrow> (Inl e, d')
      | (Inr sz, d') \<Rightarrow>
          if \<not> makeslice_ok 24 (uint sz) then (Inl PanicMakeSliceLen, d')
          else (case decodePolygon_loop (nat (sint sz)) d' of
                  (Inl e, d'') \<Rightarrow> (Inl e, d'')
                | (Inr rings, d'') \<Rightarrow>
                    (case h of
                       Some hdr \<Rightarrow> (Inr (Polygon (Some hdr) rings), d'')
                     | None \<Rightarrow> (Inr (Polygon None rings), d''))))"

subsection \<open>Multi-geometry header\<close>

text \<open>\<open>readIDList(d, ngeoms)\<close>: the loop, then the function with its \<open>make([]int64, ngeoms)\<close>.\<close>

fun readIDList_loop :: "nat \<Rightarrow> decoder \<Rightarrow> int64 list result" where
  "readIDList_loop 0 d = (Inr [], d)"
| "readIDList_loop (Suc n) d =
     (case readVarSInt64 d of
        (Inl e, d') \<Rightarrow> (Inl e, d')
      | (Inr id', d') \<Rightarrow>
          (case readIDList_loop n d' of
             (Inl e, d'') \<Rightarrow> (Inl e, d'')
           | (Inr ids, d'') \<Rightarrow> (Inr (id' # ids), d'')))"

definition readIDList :: "decoder \<Rightarrow> int64 \<Rightarrow> int64 list result" where
  "readIDList d n =
     (if \<not> makeslice_ok 8 (sint n) then (Inl PanicMakeSliceLen, d)
      else readIDList_loop (nat (sint n)) d)"

text \<open>\<open>readMHdr\<close>: a nil \<open>idlist\<close> is the empty list.\<close>

definition readMHdr :: "decoder \<Rightarrow> mhdr result" where
  "readMHdr d =
     (case readVarInt64 d of
        (Inl e, d') \<Rightarrow> (Inl e, d')
      | (Inr n, d') \<Rightarrow>
          if idlist_d d'
          then (case readIDList d' n of
                  (Inl e, d'') \<Rightarrow> (Inl e, d'')
                | (Inr ids, d'') \<Rightarrow> (Inr \<lparr>idlist = ids, ngeoms = sint n\<rparr>, d''))
          else (Inr \<lparr>idlist = [], ngeoms = sint n\<rparr>, d'))"

subsection \<open>MultiPoint, MultiLineString, MultiPolygon\<close>

text \<open>
  The member loops call the body decoder of the simple kind with a nil header and the
  decoder of the parent. A \<open>Point\<close>, a \<open>LineString\<close> and a \<open>Polygon\<close> are 32 bytes each
  (a pointer and a slice header).
\<close>

fun decodeMultiPoint_loop :: "nat \<Rightarrow> decoder \<Rightarrow> Point list result" where
  "decodeMultiPoint_loop 0 d = (Inr [], d)"
| "decodeMultiPoint_loop (Suc n) d =
     (case decodePoint d None of
        (Inl e, d') \<Rightarrow> (Inl e, d')
      | (Inr p, d') \<Rightarrow>
          (case decodeMultiPoint_loop n d' of
             (Inl e, d'') \<Rightarrow> (Inl e, d'')
           | (Inr ps, d'') \<Rightarrow> (Inr (p # ps), d'')))"

definition decodeMultiPoint :: "decoder \<Rightarrow> Hdr option \<Rightarrow> MultiPoint result" where
  "decodeMultiPoint d h =
     (case readMHdr d of
        (Inl e, d') \<Rightarrow> (Inl e, d')
      | (Inr m, d') \<Rightarrow>
          if \<not> makeslice_ok 32 (ngeoms m) then (Inl PanicMakeSliceLen, d')
          else (case decodeMultiPoint_loop (nat (ngeoms m)) d' of
                  (Inl e, d'') \<Rightarrow> (Inl e, d'')
                | (Inr ps, d'') \<Rightarrow> (Inr (MultiPoint h (idlist m) ps), d'')))"

fun decodeMultiLineString_loop :: "nat \<Rightarrow> decoder \<Rightarrow> LineString list result" where
  "decodeMultiLineString_loop 0 d = (Inr [], d)"
| "decodeMultiLineString_loop (Suc n) d =
     (case decodeLineString d None of
        (Inl e, d') \<Rightarrow> (Inl e, d')
      | (Inr p, d') \<Rightarrow>
          (case decodeMultiLineString_loop n d' of
             (Inl e, d'') \<Rightarrow> (Inl e, d'')
           | (Inr ps, d'') \<Rightarrow> (Inr (p # ps), d'')))"

definition decodeMultiLineString :: "decoder \<Rightarrow> Hdr option \<Rightarrow> MultiLineString result" where
  "decodeMultiLineString d h =
     (case readMHdr d of
        (Inl e, d') \<Rightarrow> (Inl e, d')
      | (Inr m, d') \<Rightarrow>
          if \<not> makeslice_ok 32 (ngeoms m) then (Inl PanicMakeSliceLen, d')
          else (case decodeMultiLineString_loop (nat (ngeoms m)) d' of
                  (Inl e, d'') \<Rightarrow> (Inl e, d'')
                | (Inr ps, d'') \<Rightarrow> (Inr (MultiLineString h (idlist m) ps), d'')))"

fun decodeMultiPolygon_loop :: "nat \<Rightarrow> decoder \<Rightarrow> Polygon list result" where
  "decodeMultiPolygon_loop 0 d = (Inr [], d)"
| "decodeMultiPolygon_loop (Suc n) d =
     (case decodePolygon d None of
        (Inl e, d') \<Rightarrow> (Inl e, d')
      | (Inr p, d') \<Rightarrow>
          (case decodeMultiPolygon_loop n d' of
             (Inl e, d'') \<Rightarrow> (Inl e, d'')
           | (Inr ps, d'') \<Rightarrow> (Inr (p # ps), d'')))"

definition decodeMultiPolygon :: "decoder \<Rightarrow> Hdr option \<Rightarrow> MultiPolygon result" where
  "decodeMultiPolygon d h =
     (case readMHdr d of
        (Inl e, d') \<Rightarrow> (Inl e, d')
      | (Inr m, d') \<Rightarrow>
          if \<not> makeslice_ok 32 (ngeoms m) then (Inl PanicMakeSliceLen, d')
          else (case decodeMultiPolygon_loop (nat (ngeoms m)) d' of
                  (Inl e, d'') \<Rightarrow> (Inl e, d'')
                | (Inr ps, d'') \<Rightarrow> (Inr (MultiPolygon h (idlist m) ps), d'')))"

subsection \<open>The header part of Decode\<close>

text \<open>\<open>&decoder{r: r}\<close>: every other field has its zero value.\<close>

definition new_decoder :: "uint8 list \<Rightarrow> decoder" where
  "new_decoder rd =
     \<lparr>r = rd, refpoint = replicate 4 0, factors = replicate 4 0, ndims = 0,
      bbox_d = False, size_d = False, idlist_d = False, empty_d = False, length_d = 0\<rparr>"

text \<open>
  \<open>precision := unzigzag(uint64(flag&0xF0)) >> 4\<close> (the shift of an \<open>int64\<close> is
  arithmetic) and \<open>int64(math.Pow10(int(precision)))\<close>.
\<close>

definition precision_of :: "uint8 \<Rightarrow> int64" where
  "precision_of flag = signed_drop_bit 4 (unzigzag (ucast (flag AND 0xF0)))"

definition factor_of :: "int \<Rightarrow> int64" where
  "factor_of p = int64_of_float64 (Pow10 p)"

text \<open>
  The extended-dimensions byte, read when the \<open>exprec\<close> bit of the metadata byte is set:
  the cases of the \<open>switch\<close> in their order.
\<close>

definition readExtended :: "uint8 \<Rightarrow> decoder \<Rightarrow> Hdr \<Rightarrow> Hdr result" where
  "readExtended flag d hdr =
     (if flag AND exprec_mask = exprec_mask
      then (case read d of
              (Inl e, d') \<Rightarrow> (Inl e, d')
            | (Inr extended, d') \<Rightarrow>
                let zprec = uint (drop_bit 2 (extended AND 0x1C));
                    mprec = uint (drop_bit 5 (extended AND 0xE0))
                in if extended AND XYZM = XYZM
                   then (Inr (hdr\<lparr>dim := XYZM\<rparr>),
                         d'\<lparr>ndims := 4,
                            factors := (factors d')[2 := factor_of zprec, 3 := factor_of mprec]\<rparr>)
                   else if extended AND XYZ = XYZ
                   then (Inr (hdr\<lparr>dim := XYZ\<rparr>),
                         d'\<lparr>ndims := 3, factors := (factors d')[2 := factor_of zprec]\<rparr>)
                   else if extended AND XYM = XYM
                   then (Inr (hdr\<lparr>dim := XYM\<rparr>),
                         d'\<lparr>ndims := 3, factors := (factors d')[2 := factor_of mprec]\<rparr>)
                   else (Inr hdr, d'))
      else (Inr hdr, d))"

text \<open>The declared size, read into \<open>decoder.length\<close> when the size flag is set.\<close>

definition readSize :: "decoder \<Rightarrow> unit result" where
  "readSize d =
     (if size_d d
      then (case readVarInt64 d of
              (Inl e, d') \<Rightarrow> (Inl e, d')
            | (Inr n, d') \<Rightarrow> (Inr (), d'\<lparr>length_d := n\<rparr>))
      else (Inr (), d))"

text \<open>The bounding box of the header, read when the bbox flag is set.\<close>

fun readBBox_loop :: "nat list \<Rightarrow> decoder \<Rightarrow> BBox \<Rightarrow> BBox result" where
  "readBBox_loop [] d bb = (Inr bb, d)"
| "readBBox_loop (idx # idxs) d bb =
     (case readVarSInt64 d of
        (Inl e, d') \<Rightarrow> (Inl e, d')
      | (Inr min', d') \<Rightarrow>
          (case readVarSInt64 d' of
             (Inl e, d'') \<Rightarrow> (Inl e, d'')
           | (Inr max', d'') \<Rightarrow>
               readBBox_loop idxs d''
                 (bb[idx := float64_of_int64 min',
                     idx + ndims d'' := float64_of_int64 (min' + max')])))"

definition readBBox :: "decoder \<Rightarrow> Hdr \<Rightarrow> Hdr result" where
  "readBBox d hdr =
     (if bbox_d d
      then (case readBBox_loop [0..<ndims d] d (replicate (ndims d * 2) 0) of
              (Inl e, d') \<Rightarrow> (Inl e, d')
            | (Inr bb, d') \<Rightarrow> (Inr (hdr\<lparr>bbox := Some bb\<rparr>), d'))
      else (Inr hdr, d))"

text \<open>
  \<open>Decode\<close> up to its \<open>switch hdr.gtype\<close>: the type-and-precision byte, the metadata
  byte, the extended dimensions, the size and the bounding box.
\<close>

definition decodeHeader :: "uint8 list \<Rightarrow> Hdr result" where
  "decodeHeader rd =
     (case read (new_decoder rd) of
        (Inl e, d1) \<Rightarrow> (Inl e, d1)
      | (Inr flag, d1) \<Rightarrow>
          let hdr = \<lparr>gtype = flag AND 0x0F, dim = 0, bbox = None\<rparr> in
          if gtype hdr > GEOMETRYCOLLECTION \<or> gtype hdr < POINT then (Inl ErrUnknownGeom, d1)
          else
            let f = factor_of (sint (precision_of flag));
                d2 = d1\<lparr>factors := (factors d1)[0 := f, 1 := f]\<rparr>
            in (case read d2 of
                  (Inl e, d3) \<Rightarrow> (Inl e, d3)
                | (Inr flag', d3) \<Rightarrow>
                    let d4 = d3\<lparr>bbox_d := (flag' AND bbox_mask = bbox_mask),
                                size_d := (flag' AND size_mask = size_mask),
                                idlist_d := (flag' AND idlist_mask = idlist_mask),
                                empty_d := (flag' AND empty_mask = empty_mask),
                                ndims := 2\<rparr>
                    in (case readExtended flag' d4 (hdr\<lparr>dim := XY\<rparr>) of
                          (Inl e, d5) \<Rightarrow> (Inl e, d5)
                        | (Inr hdr', d5) \<Rightarrow>
                            (case readSize d5 of
                               (Inl e, d6) \<Rightarrow> (Inl e, d6)
                             | (Inr u, d6) \<Rightarrow> readBBox d6 hdr'))))"

section \<open>The input only shrinks\<close>

text \<open>
  No call puts a byte back: whatever a function returns, the reader it leaves holds at most
  the bytes it was given, and fewer after a successful read. \<open>Decode\<close> calls itself
  on the reader a member left, so its termination rests on this.
\<close>

declare readVarInt64_loop.simps [simp del]

lemma read_le: "read d = (x, d') \<Longrightarrow> length (r d') \<le> length (r d)"
  by (auto simp: read_def split: list.splits)

lemma readVarInt64_loop_le:
  "readVarInt64_loop val shift d = (x, d') \<Longrightarrow> length (r d') \<le> length (r d)"
proof (induction val shift d rule: readVarInt64_loop.induct)
  case (1 val shift d)
  obtain y d1 where rd: "read d = (y, d1)" by (cases "read d")
  show ?case
  proof (cases y)
    case (Inl e)
    with rd "1.prems" read_le [OF rd] show ?thesis
      by (simp add: readVarInt64_loop.simps [of val shift d])
  next
    case (Inr byte)
    show ?thesis
    proof (cases "byte AND 0x80 = 0")
      case True
      with Inr rd "1.prems" read_le [OF rd] show ?thesis
        by (simp add: readVarInt64_loop.simps [of val shift d])
    next
      case False
      with Inr rd "1.prems"
      have "readVarInt64_loop (val OR push_bit (unat shift) (ucast byte AND 0x7f)) (shift + 7) d1
            = (x, d')"
        by (simp add: readVarInt64_loop.simps [of val shift d])
      from "1.IH" [OF rd [symmetric] Inr False this] read_le [OF rd] show ?thesis by simp
    qed
  qed
qed

lemma readVarInt64_loop_lt:
  "readVarInt64_loop val shift d = (Inr v, d') \<Longrightarrow> length (r d') < length (r d)"
proof (induction val shift d rule: readVarInt64_loop.induct)
  case (1 val shift d)
  from "1.prems" obtain byte d1 where rd: "read d = (Inr byte, d1)"
    by (cases "read d"; cases "fst (read d)") (auto simp: readVarInt64_loop.simps [of val shift d])
  show ?case
  proof (cases "byte AND 0x80 = 0")
    case True
    with "1.prems" rd read_shorter [OF rd] show ?thesis
      by (simp add: readVarInt64_loop.simps [of val shift d])
  next
    case False
    with "1.prems" rd have "readVarInt64_loop (val OR push_bit (unat shift) (ucast byte AND 0x7f)) (shift + 7) d1 = (Inr v, d')"
      by (simp add: readVarInt64_loop.simps [of val shift d])
    from "1.IH" [OF rd [symmetric] refl False this] read_shorter [OF rd] show ?thesis by simp
  qed
qed

lemma readVarInt64_le: "readVarInt64 d = (x, d') \<Longrightarrow> length (r d') \<le> length (r d)"
  by (simp add: readVarInt64_def readVarInt64_loop_le)

lemma readVarInt64_lt: "readVarInt64 d = (Inr v, d') \<Longrightarrow> length (r d') < length (r d)"
  by (simp add: readVarInt64_def readVarInt64_loop_lt)

lemma readVarSInt64_le: "readVarSInt64 d = (x, d') \<Longrightarrow> length (r d') \<le> length (r d)"
  by (auto simp: readVarSInt64_def split: prod.splits sum.splits dest: readVarInt64_le)

lemma readVarSInt64_lt: "readVarSInt64 d = (Inr v, d') \<Longrightarrow> length (r d') < length (r d)"
  by (auto simp: readVarSInt64_def split: prod.splits sum.splits dest: readVarInt64_lt)

lemma readCoords_dims_le:
  "readCoords_dims js d coord bb = (x, d') \<Longrightarrow> length (r d') \<le> length (r d)"
proof (induction js arbitrary: d coord bb)
  case Nil
  then show ?case by simp
next
  case (Cons j js)
  obtain y d1 where rd: "readVarSInt64 d = (y, d1)" by (cases "readVarSInt64 d")
  show ?case
  proof (cases y)
    case (Inl e)
    with rd Cons.prems readVarSInt64_le [OF rd] show ?thesis by simp
  next
    case (Inr val)
    with rd Cons.prems readVarSInt64_le [OF rd] show ?thesis
      by (auto simp: Let_def dest!: Cons.IH)
  qed
qed

lemma readCoords_loop_le:
  "readCoords_loop n d bb = (x, d') \<Longrightarrow> length (r d') \<le> length (r d)"
proof (induction n arbitrary: d bb x d')
  case 0
  then show ?case by simp
next
  case (Suc n)
  obtain y d1 where rd: "readCoords_dims [0..<ndims d] d (replicate (ndims d) 0) bb = (y, d1)"
    by (cases "readCoords_dims [0..<ndims d] d (replicate (ndims d) 0) bb")
  note le1 = readCoords_dims_le [OF rd]
  show ?case
  proof (cases y)
    case (Inl e)
    with rd Suc.prems le1 show ?thesis by simp
  next
    case (Inr cb)
    obtain z d2 where rl: "readCoords_loop n d1 (snd cb) = (z, d2)"
      by (cases "readCoords_loop n d1 (snd cb)")
    from Suc.IH [OF rl] le1 have "length (r d2) \<le> length (r d)" by simp
    with Inr rd rl Suc.prems show ?thesis
      by (cases cb; cases z) (auto split: prod.splits)
  qed
qed

lemma readCoords_le: "readCoords d sz = (x, d') \<Longrightarrow> length (r d') \<le> length (r d)"
  by (auto simp: readCoords_def split: if_splits dest: readCoords_loop_le)

lemma decodePoint_le: "decodePoint d h = (x, d') \<Longrightarrow> length (r d') \<le> length (r d)"
  by (auto simp: decodePoint_def split: prod.splits sum.splits option.splits dest: readCoords_le)

lemma decodeLineString_le:
  "decodeLineString d h = (x, d') \<Longrightarrow> length (r d') \<le> length (r d)"
  by (auto simp: decodeLineString_def split: prod.splits sum.splits option.splits
      dest!: readCoords_le readVarInt64_le)

lemma decodePolygon_loop_le:
  "decodePolygon_loop n d = (x, d') \<Longrightarrow> length (r d') \<le> length (r d)"
proof (induction n arbitrary: d x d')
  case 0
  then show ?case by simp
next
  case (Suc n)
  obtain y d1 where rv: "readVarInt64 d = (y, d1)" by (cases "readVarInt64 d")
  note le1 = readVarInt64_le [OF rv]
  show ?case
  proof (cases y)
    case (Inl e)
    with rv Suc.prems le1 show ?thesis by simp
  next
    case (Inr ringSize)
    obtain res d2 where rc: "readCoords d1 (sint ringSize) = (res, d2)"
      by (cases "readCoords d1 (sint ringSize)")
    note le2 = readCoords_le [OF rc]
    obtain z d3 where rl: "decodePolygon_loop n d2 = (z, d3)"
      by (cases "decodePolygon_loop n d2")
    from Suc.IH [OF rl] le1 le2 have "length (r d3) \<le> length (r d)" by simp
    with Inr rv rc rl Suc.prems le1 le2 show ?thesis
      by (auto split: sum.splits err.splits prod.splits)
  qed
qed

lemma decodePolygon_le: "decodePolygon d h = (x, d') \<Longrightarrow> length (r d') \<le> length (r d)"
  by (auto simp: decodePolygon_def split: prod.splits sum.splits option.splits if_splits
      dest!: decodePolygon_loop_le readVarInt64_le)

lemma readIDList_loop_le:
  "readIDList_loop n d = (x, d') \<Longrightarrow> length (r d') \<le> length (r d)"
proof (induction n arbitrary: d x d')
  case 0
  then show ?case by simp
next
  case (Suc n)
  obtain y d1 where rv: "readVarSInt64 d = (y, d1)" by (cases "readVarSInt64 d")
  note le1 = readVarSInt64_le [OF rv]
  show ?case
  proof (cases y)
    case (Inl e)
    with rv Suc.prems le1 show ?thesis by simp
  next
    case (Inr v)
    obtain z d2 where rl: "readIDList_loop n d1 = (z, d2)" by (cases "readIDList_loop n d1")
    from Suc.IH [OF rl] le1 have "length (r d2) \<le> length (r d)" by simp
    with Inr rv rl Suc.prems show ?thesis by (auto split: sum.splits)
  qed
qed

lemma readIDList_le: "readIDList d n = (x, d') \<Longrightarrow> length (r d') \<le> length (r d)"
  by (auto simp: readIDList_def split: if_splits dest: readIDList_loop_le)

lemma readMHdr_le: "readMHdr d = (x, d') \<Longrightarrow> length (r d') \<le> length (r d)"
  by (auto simp: readMHdr_def split: prod.splits sum.splits if_splits
      dest!: readIDList_le readVarInt64_le)

lemma readMHdr_lt: "readMHdr d = (Inr m, d') \<Longrightarrow> length (r d') < length (r d)"
  by (auto simp: readMHdr_def split: prod.splits sum.splits if_splits
      dest!: readIDList_le readVarInt64_lt)

lemma decodeMultiPoint_loop_le:
  "decodeMultiPoint_loop n d = (x, d') \<Longrightarrow> length (r d') \<le> length (r d)"
proof (induction n arbitrary: d x d')
  case 0
  then show ?case by simp
next
  case (Suc n)
  obtain y d1 where rv: "decodePoint d None = (y, d1)" by (cases "decodePoint d None")
  note le1 = decodePoint_le [OF rv]
  show ?case
  proof (cases y)
    case (Inl e)
    with rv Suc.prems le1 show ?thesis by simp
  next
    case (Inr v)
    obtain z d2 where rl: "decodeMultiPoint_loop n d1 = (z, d2)"
      by (cases "decodeMultiPoint_loop n d1")
    from Suc.IH [OF rl] le1 have "length (r d2) \<le> length (r d)" by simp
    with Inr rv rl Suc.prems show ?thesis by (auto split: sum.splits)
  qed
qed

lemma decodeMultiLineString_loop_le:
  "decodeMultiLineString_loop n d = (x, d') \<Longrightarrow> length (r d') \<le> length (r d)"
proof (induction n arbitrary: d x d')
  case 0
  then show ?case by simp
next
  case (Suc n)
  obtain y d1 where rv: "decodeLineString d None = (y, d1)" by (cases "decodeLineString d None")
  note le1 = decodeLineString_le [OF rv]
  show ?case
  proof (cases y)
    case (Inl e)
    with rv Suc.prems le1 show ?thesis by simp
  next
    case (Inr v)
    obtain z d2 where rl: "decodeMultiLineString_loop n d1 = (z, d2)"
      by (cases "decodeMultiLineString_loop n d1")
    from Suc.IH [OF rl] le1 have "length (r d2) \<le> length (r d)" by simp
    with Inr rv rl Suc.prems show ?thesis by (auto split: sum.splits)
  qed
qed

lemma decodeMultiPolygon_loop_le:
  "decodeMultiPolygon_loop n d = (x, d') \<Longrightarrow> length (r d') \<le> length (r d)"
proof (induction n arbitrary: d x d')
  case 0
  then show ?case by simp
next
  case (Suc n)
  obtain y d1 where rv: "decodePolygon d None = (y, d1)" by (cases "decodePolygon d None")
  note le1 = decodePolygon_le [OF rv]
  show ?case
  proof (cases y)
    case (Inl e)
    with rv Suc.prems le1 show ?thesis by simp
  next
    case (Inr v)
    obtain z d2 where rl: "decodeMultiPolygon_loop n d1 = (z, d2)"
      by (cases "decodeMultiPolygon_loop n d1")
    from Suc.IH [OF rl] le1 have "length (r d2) \<le> length (r d)" by simp
    with Inr rv rl Suc.prems show ?thesis by (auto split: sum.splits)
  qed
qed

lemma decodeMultiPoint_le:
  "decodeMultiPoint d h = (x, d') \<Longrightarrow> length (r d') \<le> length (r d)"
  by (auto simp: decodeMultiPoint_def split: prod.splits sum.splits if_splits
      dest!: decodeMultiPoint_loop_le readMHdr_le)

lemma decodeMultiLineString_le:
  "decodeMultiLineString d h = (x, d') \<Longrightarrow> length (r d') \<le> length (r d)"
  by (auto simp: decodeMultiLineString_def split: prod.splits sum.splits if_splits
      dest!: decodeMultiLineString_loop_le readMHdr_le)

lemma decodeMultiPolygon_le:
  "decodeMultiPolygon d h = (x, d') \<Longrightarrow> length (r d') \<le> length (r d)"
  by (auto simp: decodeMultiPolygon_def split: prod.splits sum.splits if_splits
      dest!: decodeMultiPolygon_loop_le readMHdr_le)

lemma readExtended_le:
  "readExtended flag d hdr = (x, d') \<Longrightarrow> length (r d') \<le> length (r d)"
  by (auto simp: readExtended_def Let_def split: prod.splits sum.splits if_splits
      dest!: read_le)

lemma readSize_le: "readSize d = (x, d') \<Longrightarrow> length (r d') \<le> length (r d)"
  by (auto simp: readSize_def split: prod.splits sum.splits if_splits dest!: readVarInt64_le)

lemma readBBox_loop_le:
  "readBBox_loop idxs d bb = (x, d') \<Longrightarrow> length (r d') \<le> length (r d)"
proof (induction idxs arbitrary: d bb)
  case Nil
  then show ?case by simp
next
  case (Cons idx idxs)
  obtain y d1 where r1: "readVarSInt64 d = (y, d1)" by (cases "readVarSInt64 d")
  note le1 = readVarSInt64_le [OF r1]
  show ?case
  proof (cases y)
    case (Inl e)
    with r1 Cons.prems le1 show ?thesis by simp
  next
    case (Inr min')
    obtain z d2 where r2: "readVarSInt64 d1 = (z, d2)" by (cases "readVarSInt64 d1")
    note le2 = readVarSInt64_le [OF r2]
    show ?thesis
    proof (cases z)
      case (Inl e)
      with Inr r1 r2 Cons.prems le1 le2 show ?thesis by simp
    next
      case Inr2: (Inr max')
      with Inr r1 r2 Cons.prems le1 le2 show ?thesis
        by (auto dest!: Cons.IH)
    qed
  qed
qed

lemma readBBox_le: "readBBox d hdr = (x, d') \<Longrightarrow> length (r d') \<le> length (r d)"
  by (auto simp: readBBox_def split: prod.splits sum.splits if_splits dest!: readBBox_loop_le)

lemma decodeHeader_le: "decodeHeader rd = (x, d') \<Longrightarrow> length (r d') \<le> length rd"
  by (auto simp: decodeHeader_def Let_def new_decoder_def
      split: prod.splits sum.splits if_splits
      dest!: read_le readExtended_le readSize_le readBBox_le)

lemma decodeHeader_lt: "decodeHeader rd = (Inr hdr, d') \<Longrightarrow> length (r d') < length rd"
  by (auto simp: decodeHeader_def Let_def new_decoder_def
      split: prod.splits sum.splits if_splits
      dest!: read_shorter readExtended_le readSize_le readBBox_le)

section \<open>Decode\<close>

text \<open>
  \<open>Decode\<close> from its \<open>switch hdr.gtype\<close> on, with \<open>decodeCollection\<close> and its member loop,
  which calls \<open>Decode\<close> on the reader of the collection. \<open>Decode\<close> returns the outcome and
  the bytes it left in the reader.
\<close>

function Decode :: "uint8 list \<Rightarrow> (err + Geometry) \<times> uint8 list"
  and decodeCollection :: "decoder \<Rightarrow> Hdr option \<Rightarrow> Geometry result"
  and decodeCollection_loop :: "nat \<Rightarrow> decoder \<Rightarrow> Geometry list result" where
  "Decode rd =
     (case decodeHeader rd of
        (Inl e, d) \<Rightarrow> (Inl e, r d)
      | (Inr hdr, d) \<Rightarrow>
          if gtype hdr = POINT
          then (case decodePoint d (Some hdr) of
                  (Inl e, d') \<Rightarrow> (Inl e, r d')
                | (Inr g, d') \<Rightarrow> (Inr (Geom_Point g), r d'))
          else if gtype hdr = LINESTRING
          then (case decodeLineString d (Some hdr) of
                  (Inl e, d') \<Rightarrow> (Inl e, r d')
                | (Inr g, d') \<Rightarrow> (Inr (Geom_LineString g), r d'))
          else if gtype hdr = POLYGON
          then (case decodePolygon d (Some hdr) of
                  (Inl e, d') \<Rightarrow> (Inl e, r d')
                | (Inr g, d') \<Rightarrow> (Inr (Geom_Polygon g), r d'))
          else if gtype hdr = MULTIPOINT
          then (case decodeMultiPoint d (Some hdr) of
                  (Inl e, d') \<Rightarrow> (Inl e, r d')
                | (Inr g, d') \<Rightarrow> (Inr (Geom_MultiPoint g), r d'))
          else if gtype hdr = MULTILINESTRING
          then (case decodeMultiLineString d (Some hdr) of
                  (Inl e, d') \<Rightarrow> (Inl e, r d')
                | (Inr g, d') \<Rightarrow> (Inr (Geom_MultiLineString g), r d'))
          else if gtype hdr = MULTIPOLYGON
          then (case decodeMultiPolygon d (Some hdr) of
                  (Inl e, d') \<Rightarrow> (Inl e, r d')
                | (Inr g, d') \<Rightarrow> (Inr (Geom_MultiPolygon g), r d'))
          else if gtype hdr = GEOMETRYCOLLECTION
          then (case decodeCollection d (Some hdr) of
                  (Inl e, d') \<Rightarrow> (Inl e, r d')
                | (Inr g, d') \<Rightarrow> (Inr g, r d'))
          else (Inr (Geom_Hdr hdr), r d))"
| "decodeCollection d h =
     (case readMHdr d of
        (Inl e, d') \<Rightarrow> (Inl e, d')
      | (Inr m, d') \<Rightarrow>
          if \<not> makeslice_ok 16 (ngeoms m) then (Inl PanicMakeSliceLen, d')
          else (case decodeCollection_loop (nat (ngeoms m)) d' of
                  (Inl e, d'') \<Rightarrow> (Inl e, d'')
                | (Inr geoms, d'') \<Rightarrow> (Inr (GeometryCollection h (idlist m) geoms), d'')))"
| "decodeCollection_loop n d =
     (if n = 0 then (Inr [], d)
      else (case Decode (r d) of
              (Inl e, rd') \<Rightarrow> (Inl e, d\<lparr>r := rd'\<rparr>)
            | (Inr g, rd') \<Rightarrow>
                (case decodeCollection_loop (n - 1) (d\<lparr>r := rd'\<rparr>) of
                   (Inl e, d') \<Rightarrow> (Inl e, d')
                 | (Inr gs, d') \<Rightarrow> (Inr (g # gs), d'))))"
  by pat_completeness auto



lemma wrap_snd:
  "snd (case p of (Inl e, d') \<Rightarrow> (Inl e, r d') | (Inr g, d') \<Rightarrow> (Inr (C g), r d')) = r (snd p)"
  by (cases p; cases "fst p") auto

lemmas snd_le = prod.collapse [symmetric]

lemma Decode_le_partial:
  shows "Decode_decodeCollection_decodeCollection_loop_dom (Inl rd) \<Longrightarrow> length (snd (Decode rd)) \<le> length rd"
    and "Decode_decodeCollection_decodeCollection_loop_dom (Inr (Inl (d, h))) \<Longrightarrow> length (r (snd (decodeCollection d h))) \<le> length (r d)"
    and "Decode_decodeCollection_decodeCollection_loop_dom (Inr (Inr (n, d))) \<Longrightarrow> length (r (snd (decodeCollection_loop n d))) \<le> length (r d)"
proof (induct rule: Decode_decodeCollection_decodeCollection_loop.pinduct)
  case (1 rd)
  note ps = Decode.psimps [OF "1.hyps"(1)]
  obtain y d where dh: "decodeHeader rd = (y, d)" by (cases "decodeHeader rd")
  note le0 = decodeHeader_le [OF dh]
  show ?case
  proof (cases y)
    case (Inl e)
    with dh le0 show ?thesis by (simp add: ps)
  next
    case (Inr hdr)
    have c: "gtype hdr = 7 \<Longrightarrow> length (r (snd (decodeCollection d (Some hdr)))) \<le> length (r d)"
      using "1.hyps"(2) [OF dh [symmetric] Inr] by (cases "gtype hdr = 7") simp_all
    show ?thesis
      using le0 c
        decodePoint_le [OF snd_le, of d "Some hdr"]
        decodeLineString_le [OF snd_le, of d "Some hdr"]
        decodePolygon_le [OF snd_le, of d "Some hdr"]
        decodeMultiPoint_le [OF snd_le, of d "Some hdr"]
        decodeMultiLineString_le [OF snd_le, of d "Some hdr"]
        decodeMultiPolygon_le [OF snd_le, of d "Some hdr"]
      by (auto simp add: ps dh Inr wrap_snd wrap_snd [where C = "\<lambda>g. g"])
  qed
next
  case (2 d h)
  note ps = decodeCollection.psimps [OF "2.hyps"(1)]
  obtain y d1 where mh: "readMHdr d = (y, d1)" by (cases "readMHdr d")
  note le0 = readMHdr_le [OF mh]
  show ?case
  proof (cases y)
    case (Inl e)
    with mh le0 show ?thesis by (simp add: ps)
  next
    case (Inr m)
    show ?thesis
    proof (cases "makeslice_ok 16 (ngeoms m)")
      case False
      with Inr mh le0 show ?thesis by (simp add: ps)
    next
      case True
      from "2.hyps"(2) [OF mh [symmetric] Inr] True
      have "length (r (snd (decodeCollection_loop (nat (ngeoms m)) d1))) \<le> length (r d1)" by simp
      with Inr mh le0 True show ?thesis
        by (cases "decodeCollection_loop (nat (ngeoms m)) d1";
            cases "fst (decodeCollection_loop (nat (ngeoms m)) d1)") (auto simp: ps)
    qed
  qed
next
  case (3 n d)
  note ps = decodeCollection_loop.psimps [OF "3.hyps"(1)]
  show ?case
  proof (cases "n = 0")
    case True
    show ?thesis unfolding ps using True by simp
  next
    case False
    obtain y rd' where dd: "Decode (r d) = (y, rd')" by (cases "Decode (r d)")
    from "3.hyps"(2) [OF False] dd have le1: "length rd' \<le> length (r d)" by simp
    show ?thesis
    proof (cases y)
      case (Inl e)
      with dd le1 False show ?thesis by (simp add: ps)
    next
      case (Inr g)
      from "3.hyps"(3) [OF False dd [symmetric] Inr]
      have "length (r (snd (decodeCollection_loop (n - 1) (d\<lparr>r := rd'\<rparr>)))) \<le> length rd'"
        by simp
      with Inr dd le1 False show ?thesis
        by (cases "decodeCollection_loop (n - 1) (d\<lparr>r := rd'\<rparr>)";
            cases "fst (decodeCollection_loop (n - 1) (d\<lparr>r := rd'\<rparr>))") (auto simp: ps)
    qed
  qed
qed

termination Decode
proof (relation "measures [\<lambda>x. case x of Inl rd \<Rightarrow> length rd | Inr (Inl (d, h)) \<Rightarrow> length (r d)
                               | Inr (Inr (n, d)) \<Rightarrow> length (r d),
                           \<lambda>x. case x of Inl rd \<Rightarrow> 0 | Inr (Inl (d, h)) \<Rightarrow> 0
                               | Inr (Inr (n, d)) \<Rightarrow> Suc n]", goal_cases)
  case 1
  show ?case by simp
next
  case (2 rd x y b)
  then show ?case by (simp add: decodeHeader_lt [OF sym])
next
  case (3 d h x y b)
  then show ?case by (simp add: readMHdr_lt [OF sym])
next
  case (4 n d)
  then show ?case by simp
next
  case (5 n d x y b)
  from Decode_le_partial(1) [OF "5"(4)] "5"(2) have "length y \<le> length (r d)"
    by (metis snd_conv)
  with "5"(1) show ?case by auto
qed

declare Decode.simps [simp del] decodeCollection.simps [simp del]
  decodeCollection_loop.simps [simp del]

section \<open>Zigzag\<close>

text \<open>
  The zigzag mapping in the words of the format, on the integers: an even \<open>u\<close> stands for
  \<open>u >> 1\<close>, an odd one for \<open>-(u >> 1) - 1\<close>. \<open>zigzag\<close> is the usual encoder,
  \<open>(v << 1) ^ (v >> 63)\<close> with an arithmetic right shift; the repository has none.
\<close>

definition zigzag_value :: "uint64 \<Rightarrow> int" where
  "zigzag_value u = (if even (uint u) then uint u div 2 else - (uint u div 2) - 1)"

definition zigzag :: "int64 \<Rightarrow> uint64" where
  "zigzag v = push_bit 1 v XOR signed_drop_bit 63 v"

lemma and_1_eq_0_iff_even: "(u :: 64 word) AND 1 = 0 \<longleftrightarrow> even u"
  by (simp add: and_one_eq even_iff_mod_2_eq_zero)

lemma unzigzag_alt: "unzigzag u = (if even u then drop_bit 1 u else NOT (drop_bit 1 u))"
  unfolding unzigzag_def and_1_eq_0_iff_even by (simp only: not_eq_complement)

lemma even_uint_iff64: "even (uint u) = even (u :: 64 word)"
proof -
  have "bit (uint u) 0 \<longleftrightarrow> bit u 0" by (simp add: bit_uint_iff)
  then show ?thesis unfolding bit_0 by blast
qed

lemma uint_drop1: "uint (drop_bit 1 (u :: 64 word)) = uint u div 2"
  by (simp add: drop_bit_eq_div uint_div_distrib)

lemma uint_drop1_bound: "uint (drop_bit 1 (u :: 64 word)) < 2 ^ 63"
proof -
  have "uint u < 2 ^ 64" using uint_bounded [of u] by simp
  then show ?thesis by (simp only: uint_drop1) simp
qed

lemma sint_small: "uint (x :: 64 word) < 2 ^ 63 \<Longrightarrow> sint x = uint x"
proof -
  assume b: "uint x < 2 ^ 63"
  have "sint x = signed_take_bit 63 (uint x)" by (simp add: sint_uint)
  also have "\<dots> = uint x"
    using b uint_ge_0 [of x] by (intro signed_take_bit_int_eq_self) linarith+
  finally show ?thesis .
qed

lemma sint_not_small: "uint (x :: 64 word) < 2 ^ 63 \<Longrightarrow> sint (NOT x) = - uint x - 1"
proof -
  assume b: "uint x < 2 ^ 63"
  have nn: "0 \<le> uint x" by simp
  have "sint (NOT x) = signed_take_bit 64 (NOT (sint x))"
    by (simp add: signed_not_eq)
  also have "\<dots> = signed_take_bit 64 (- uint x - 1)"
    by (simp only: sint_small [OF b] not_int_def)
  also have "\<dots> = - uint x - 1"
  proof (rule signed_take_bit_int_eq_self)
    from b show "- (2 ^ 64) \<le> - uint x - 1" by simp
    have "- uint x - 1 < 0" using nn by linarith
    also have "(0::int) < 2 ^ 64" by simp
    finally show "- uint x - 1 < 2 ^ 64" .
  qed
  finally show ?thesis .
qed

lemma sint_unzigzag: "sint (unzigzag u) = zigzag_value u"
proof (cases "even u")
  case True
  then show ?thesis
    using sint_small [OF uint_drop1_bound, of u]
    by (simp only: unzigzag_alt zigzag_value_def even_uint_iff64 uint_drop1 if_True)
next
  case False
  then show ?thesis
    using sint_not_small [OF uint_drop1_bound, of u]
    by (simp only: unzigzag_alt zigzag_value_def even_uint_iff64 uint_drop1 if_False)
qed


lemma sdb63: "signed_drop_bit 63 (v::64 word) = (if bit v 63 then -1 else 0)"
proof (rule bit_word_eqI)
  fix n :: nat assume "n < LENGTH(64)"
  then show "bit (signed_drop_bit 63 v) n = bit (if bit v 63 then - 1 else (0::64 word)) n"
    by (cases "n = 0") (simp_all add: bit_signed_drop_bit_iff)
qed

lemma even_zigzag: "even (zigzag v) \<longleftrightarrow> \<not> bit v 63"
  by (simp add: zigzag_def sdb63)

lemma roundtrip_neg:
  assumes "bit (v::64 word) 63" shows "NOT (drop_bit 1 (NOT (push_bit 1 v))) = v"
proof (rule bit_word_eqI)
  fix n :: nat assume n: "n < LENGTH(64)"
  show "bit (NOT (drop_bit 1 (NOT (push_bit 1 v)))) n = bit v n"
  proof (cases "n = 63")
    case True
    then show ?thesis using assms
      by (simp add: bit_not_iff bit_drop_bit_eq bit_push_bit_iff del: push_bit_Suc One_nat_def)
  next
    case False
    with n have "n < 63" by simp
    then show ?thesis
      by (simp add: bit_not_iff bit_drop_bit_eq bit_push_bit_iff del: push_bit_Suc One_nat_def)
  qed
qed

lemma roundtrip_pos:
  assumes "\<not> bit (v::64 word) 63" shows "drop_bit 1 (push_bit 1 v) = v"
proof (rule bit_word_eqI)
  fix n :: nat assume n: "n < LENGTH(64)"
  show "bit (drop_bit 1 (push_bit 1 v)) n = bit v n"
  proof (cases "n = 63")
    case True
    then show ?thesis using assms
      by (simp add: bit_drop_bit_eq bit_push_bit_iff del: push_bit_Suc One_nat_def)
  next
    case False
    with n have "n < 63" by simp
    then show ?thesis
      by (simp add: bit_drop_bit_eq bit_push_bit_iff del: push_bit_Suc One_nat_def)
  qed
qed

lemma unzigzag_zigzag: "unzigzag (zigzag v) = v"
proof (cases "bit v 63")
  case True
  have "zigzag v = NOT (push_bit 1 v)"
    using True unfolding zigzag_def sdb63 by (simp only: if_True bit.xor_one_right)
  then show ?thesis
    using True roundtrip_neg [OF True] by (simp only: unzigzag_alt even_zigzag) simp
next
  case False
  have "zigzag v = push_bit 1 v"
    using False unfolding zigzag_def sdb63 by (simp only: if_False xor.right_neutral)
  then show ?thesis
    using False roundtrip_pos [OF False] by (simp only: unzigzag_alt even_zigzag) simp
qed

lemma zigzag_conformant: "zigzag_value (zigzag w) = sint w"
  using sint_unzigzag [of "zigzag w"] by (simp only: unzigzag_zigzag)

text \<open>
  Claim C5. \<open>unzigzag\<close> maps every unsigned \<open>u\<close> to \<open>u >> 1\<close> when \<open>u\<close> is even and to
  \<open>-(u >> 1) - 1\<close> when it is odd, read as a signed 64-bit value. Hence it inverts the
  encoder \<open>zigzag\<close> on every signed 64-bit \<open>v\<close>, and likewise every encoder \<open>enc\<close> that
  conforms to the mapping.
\<close>

theorem unzigzag_inverts_zigzag:
  "sint (unzigzag u) = zigzag_value u \<and> unzigzag (zigzag v) = v \<and>
   ((\<forall>w. zigzag_value (enc w) = sint w) \<longrightarrow> unzigzag (enc v) = v)"
proof (intro conjI impI)
  show "sint (unzigzag u) = zigzag_value u" by (rule sint_unzigzag)
  show "unzigzag (zigzag v) = v" by (rule unzigzag_zigzag)
  assume "\<forall>w. zigzag_value (enc w) = sint w"
  then have "sint (unzigzag (enc v)) = sint v" by (simp only: sint_unzigzag)
  then show "unzigzag (enc v) = v" by (rule signed_word_eqI)
qed

theorem unzigzag_inverts_zigzag_witness:
  "(\<forall>w. zigzag_value (zigzag w) = sint w) \<and> sint (unzigzag 5) = - 3 \<and>
   zigzag (- 3) = 5 \<and> unzigzag (zigzag (- 3)) = - 3"
proof -
  have c: "\<forall>w. zigzag_value (zigzag w) = sint w" by (simp only: zigzag_conformant) simp
  have e: "zigzag_value 5 = - 3" by (simp add: zigzag_value_def)
  have z: "zigzag (- 3) = 5" by (simp add: zigzag_def)
  from unzigzag_inverts_zigzag [of 5 "- 3" zigzag] c e z show ?thesis by simp
qed

section \<open>Unknown geometry kinds\<close>

text \<open>
  Claim C6. When the low nibble of the first byte is 0 or greater than 7, \<open>Decode\<close> fails
  with \<open>ErrUnknownGeom\<close> and returns no geometry; it has read that one byte.
\<close>

theorem Decode_unknown_geometry:
  "b AND 0x0F = 0 \<or> b AND 0x0F > 7 \<Longrightarrow> Decode (b # bs) = (Inl ErrUnknownGeom, bs)"
  by (subst Decode.simps) (auto simp: decodeHeader_def read_def new_decoder_def Let_def)

theorem Decode_unknown_geometry_witness:
  "Decode [0x08, 0x00, 0x02, 0x04] = (Inl ErrUnknownGeom, [0x00, 0x02, 0x04]) \<and>
   Decode [0x10, 0x00, 0x02, 0x04] = (Inl ErrUnknownGeom, [0x00, 0x02, 0x04])"
  using Decode_unknown_geometry [of "0x08" "[0x00, 0x02, 0x04]"]
    Decode_unknown_geometry [of "0x10" "[0x00, 0x02, 0x04]"]
  by simp

section \<open>The precision exponent\<close>

lemma bit_F0: "bit (0xF0 :: uint8) k \<longleftrightarrow> 4 \<le> k \<and> k < 8"
proof -
  have "(0xF0 :: uint8) = push_bit 4 (mask 4)" by (simp add: mask_eq_exp_minus_1)
  then show ?thesis
    by (simp only: bit_push_bit_iff bit_mask_iff) (auto dest: bit_imp_le_length)
qed

lemma even_masked_flag: "even (ucast (flag AND 0xF0 :: uint8) :: 64 word)"
proof -
  have "\<not> bit (0xF0 :: uint8) 0" by (simp only: bit_F0) simp
  then have "\<not> bit (ucast (flag AND 0xF0 :: uint8) :: 64 word) 0"
    by (simp only: bit_ucast_iff bit_and_iff) simp
  then show ?thesis unfolding bit_0 by blast
qed

lemma shifted_masked_flag:
  "signed_drop_bit 4 (drop_bit 1 (ucast (flag AND 0xF0 :: uint8) :: 64 word))
   = ucast (drop_bit 5 flag)"
proof (rule bit_word_eqI)
  fix n :: nat assume n: "n < LENGTH(64)"
  have hi: "\<not> bit flag k" if "8 \<le> k" for k
    using that bit_imp_le_length [of flag k] by auto
  show "bit (signed_drop_bit 4 (drop_bit 1 (ucast (flag AND 0xF0) :: 64 word))) n
        = bit (ucast (drop_bit 5 flag) :: 64 word) n"
  proof (cases "n < 3")
    case True
    then have "4 \<le> 5 + n \<and> 5 + n < 8" by simp
    then have "bit (0xF0 :: uint8) (5 + n)" by (simp only: bit_F0)
    with True show ?thesis using n
      by (simp add: bit_signed_drop_bit_iff bit_drop_bit_eq bit_ucast_iff bit_and_iff)
  next
    case False
    then have "8 \<le> 5 + n" by simp
    with False n hi [of "5 + n"] hi [of 64] show ?thesis
      by (simp add: bit_signed_drop_bit_iff bit_drop_bit_eq bit_ucast_iff bit_and_iff bit_F0)
  qed
qed

text \<open>
  What \<open>Decode\<close> computes as the precision: the masked byte \<open>flag & 0xF0\<close> is even, so
  \<open>unzigzag\<close> halves it, and the shift by 4 leaves the high nibble shifted right by
  one. The sign bit of the zigzag nibble (bit 4 of the byte) is dropped.
\<close>

lemma precision_of_eq: "precision_of flag = ucast (drop_bit 5 flag)"
  unfolding precision_of_def unzigzag_def
  using even_masked_flag [of flag] shifted_masked_flag [of flag]
  by (simp only: and_1_eq_0_iff_even if_True)

text \<open>
  Claim C1, at the byte \<open>0x11\<close>: a Point whose precision nibble is 1, the zigzag code of
  \<open>-1\<close>. The claim gives \<open>p = -1\<close> and the coordinates \<open>1 / 10^-1 = 10\<close> and
  \<open>2 / 10^-1 = 20\<close>; the decoder computes the precision 0, the factor 1 and the
  coordinates 1 and 2.
\<close>

theorem precision_sign_lost:
  "zigzag_value (ucast (drop_bit 4 (0x11 :: uint8))) = - 1 \<and>
   sint (precision_of 0x11) = 0 \<and>
   factor_of (sint (precision_of 0x11)) = 1 \<and>
   Decode [0x11, 0x00, 0x02, 0x04] =
     (Inr (Geom_Point
        (Point (Some \<lparr>gtype = 1, dim = 0, bbox = Some [1, 2, 1, 2]\<rparr>) [1, 2])), [])"
  by code_simp

section \<open>Read failures inside a polygon\<close>

text \<open>
  Claim C2, at the input \<open>03 00 01 02 02 02\<close>: a Polygon of one ring that declares two
  points and ends after the first. \<open>readCoords\<close> fails with \<open>io.EOF\<close> on the second
  point; \<open>decodePolygon\<close> does not test that error and \<open>Decode\<close> returns a Polygon whose
  one ring is nil, with no error.
\<close>

theorem decodePolygon_drops_read_error:
  "readCoords ((new_decoder [0x02, 0x02])\<lparr>ndims := 2, factors := [1, 1, 0, 0]\<rparr>) 2 =
     (Inl EOF,
      (new_decoder [])\<lparr>ndims := 2, factors := [1, 1, 0, 0], refpoint := [1, 1, 0, 0]\<rparr>) \<and>
   Decode [0x03, 0x00, 0x01, 0x02, 0x02, 0x02] =
     (Inr (Geom_Polygon (Polygon (Some \<lparr>gtype = 3, dim = 0, bbox = None\<rparr>) [[]])), [])"
  by code_simp

section \<open>Varints\<close>

text \<open>
  The encoder side, which the repository does not have. \<open>putUvarint\<close> is the little-endian
  base-128 encoder: seven payload bits per byte, lowest group first, the top bit set on
  every byte but the last. \<open>payload_value\<close> is the number a sequence of groups stands
  for, each byte contributing its low seven bits.
\<close>

function putUvarint :: "uint64 \<Rightarrow> uint8 list" where
  "putUvarint x =
     (if x < 0x80 then [ucast x] else (ucast x OR 0x80) # putUvarint (drop_bit 7 x))"
  by pat_completeness auto
termination putUvarint
proof (relation "measure unat")
  show "wf (measure unat)" by simp
next
  fix x :: uint64
  assume "\<not> x < 0x80"
  then have "128 \<le> unat x" by (simp add: word_less_nat_alt)
  then have "unat x div 128 < unat x" by simp
  then show "(drop_bit 7 x, x) \<in> measure unat"
    by (simp only: in_measure unat_drop_bit_eq) (simp add: drop_bit_eq_div)
qed

declare putUvarint.simps [simp del]

fun payload_value :: "uint8 list \<Rightarrow> nat" where
  "payload_value [] = 0"
| "payload_value (b # bs) = unat (b AND 0x7f) + 128 * payload_value bs"

lemma read_cons: "read (d\<lparr>r := b # bs\<rparr>) = (Inr b, d\<lparr>r := bs\<rparr>)"
  by (simp add: read_def)

lemma read_nil: "read (d\<lparr>r := []\<rparr>) = (Inl EOF, d\<lparr>r := []\<rparr>)"
  by (simp add: read_def)

lemma loop_cont:
  "b AND 0x80 \<noteq> 0 \<Longrightarrow>
   readVarInt64_loop val shift (d\<lparr>r := b # bs\<rparr>) =
   readVarInt64_loop (val OR push_bit (unat shift) (ucast b AND 0x7f)) (shift + 7) (d\<lparr>r := bs\<rparr>)"
  by (subst readVarInt64_loop.simps) (simp add: read_cons)

lemma loop_stop:
  "b AND 0x80 = 0 \<Longrightarrow>
   readVarInt64_loop val shift (d\<lparr>r := b # bs\<rparr>) =
   (Inr (val OR push_bit (unat shift) (ucast b)), d\<lparr>r := bs\<rparr>)"
  by (subst readVarInt64_loop.simps) (simp add: read_cons)

lemma loop_eof:
  "readVarInt64_loop val shift (d\<lparr>r := []\<rparr>) = (Inl EOF, d\<lparr>r := []\<rparr>)"
  by (subst readVarInt64_loop.simps) (simp add: read_nil)

lemma truncated_loop:
  "\<forall>b\<in>set bs. b AND 0x80 \<noteq> 0 \<Longrightarrow>
   readVarInt64_loop val shift (d\<lparr>r := bs\<rparr>) = (Inl EOF, d\<lparr>r := []\<rparr>)"
  by (induction bs arbitrary: val shift) (simp_all add: loop_eof loop_cont)

lemma unat_shift_plus_7:
  "unat (shift :: uint64) + 7 < 2 ^ 64 \<Longrightarrow> unat (shift + 7) = unat shift + 7"
  using unat_add_lem [of shift "7 :: uint64"] by simp

lemma low7_disjoint: "(ucast (b :: uint8) AND 0x7f) AND push_bit 7 (y :: uint64) = 0"
proof (rule bit_word_eqI)
  fix n :: nat assume "n < LENGTH(64)"
  have "(0x7f :: uint64) = mask 7" by (simp add: mask_eq_exp_minus_1)
  then show "bit ((ucast b AND 0x7f) AND push_bit 7 y) n = bit (0 :: uint64) n"
    by (simp only: bit_and_iff bit_mask_iff bit_push_bit_iff) auto
qed

lemma group_value:
  "(of_nat (unat ((b :: uint8) AND 0x7f) + 128 * m) :: uint64)
   = (ucast b AND 0x7f) OR push_bit 7 (of_nat m)"
proof -
  have "(of_nat (unat (b AND 0x7f) + 128 * m) :: uint64)
        = ucast (b AND 0x7f) + push_bit 7 (of_nat m)"
    by (simp add: push_bit_eq_mult)
  also have "(ucast (b AND 0x7f) :: uint64) = ucast b AND 0x7f"
    by (simp add: unsigned_and_eq)
  finally show ?thesis by (simp only: disjunctive_add_eq_or [OF low7_disjoint])
qed

lemma loop_groups:
  "\<forall>b\<in>set cs. b AND 0x80 \<noteq> 0 \<Longrightarrow> unat shift + 7 * length cs < 2 ^ 64 \<Longrightarrow>
   readVarInt64_loop val shift (d\<lparr>r := cs @ rest\<rparr>) =
   readVarInt64_loop (val OR push_bit (unat shift) (of_nat (payload_value cs)))
     (shift + of_nat (7 * length cs)) (d\<lparr>r := rest\<rparr>)"
proof (induction cs arbitrary: val shift)
  case Nil
  then show ?case by simp
next
  case (Cons b cs)
  from Cons.prems have b: "b AND 0x80 \<noteq> 0" and cs: "\<forall>b\<in>set cs. b AND 0x80 \<noteq> 0" by simp_all
  from Cons.prems(2) have s7: "unat (shift + 7) = unat shift + 7"
    by (intro unat_shift_plus_7) simp
  with Cons.prems(2) have bound: "unat (shift + 7) + 7 * length cs < 2 ^ 64" by simp
  have "readVarInt64_loop val shift (d\<lparr>r := (b # cs) @ rest\<rparr>) =
        readVarInt64_loop (val OR push_bit (unat shift) (ucast b AND 0x7f)) (shift + 7)
          (d\<lparr>r := cs @ rest\<rparr>)"
    using loop_cont [OF b] by simp
  also have "\<dots> =
        readVarInt64_loop
          ((val OR push_bit (unat shift) (ucast b AND 0x7f))
             OR push_bit (unat (shift + 7)) (of_nat (payload_value cs)))
          (shift + 7 + of_nat (7 * length cs)) (d\<lparr>r := rest\<rparr>)"
    by (rule Cons.IH [OF cs bound])
  also have "(val OR push_bit (unat shift) (ucast b AND 0x7f))
             OR push_bit (unat (shift + 7)) (of_nat (payload_value cs))
           = val OR push_bit (unat shift) (of_nat (payload_value (b # cs)))"
    by (simp only: payload_value.simps group_value s7 push_bit_or push_bit_push_bit
        or.assoc add.commute [of 7])
  also have "shift + 7 + of_nat (7 * length cs) = shift + of_nat (7 * length (b # cs))"
    by simp
  finally show ?case .
qed


lemma payload_value_append:
  "payload_value (as @ bs) = payload_value as + 128 ^ length as * payload_value bs"
  by (induction as) (simp_all add: algebra_simps)

lemma of_nat_high_groups: "(of_nat (128 ^ 10 * m) :: uint64) = 0"
proof -
  have "(of_nat (128 ^ 10 * m) :: uint64) = push_bit 70 (of_nat m)"
    by (simp add: push_bit_eq_mult)
  also have "\<dots> = 0"
    by (intro bit_word_eqI) (simp add: bit_push_bit_iff)
  finally show ?thesis .
qed

lemma payload_low_groups:
  "10 \<le> length cs \<Longrightarrow>
   (of_nat (payload_value cs) :: uint64) = of_nat (payload_value (take 10 cs))"
proof -
  assume l: "10 \<le> length cs"
  have "payload_value cs = payload_value (take 10 cs @ drop 10 cs)" by simp
  also have "\<dots> = payload_value (take 10 cs) + 128 ^ 10 * payload_value (drop 10 cs)"
    using l by (simp only: payload_value_append) simp
  finally show ?thesis by (simp only: of_nat_add of_nat_high_groups) simp
qed

text \<open>
  Claim C10. A terminated varint of more than 10 bytes (at least 10 continuation bytes
  \<open>cs\<close> and the terminator \<open>t\<close>) is not an error: \<open>readVarInt64\<close> returns the value of the
  first ten groups, reduced to 64 bits, and consumes the whole encoding. The groups from
  the eleventh on and the terminator are shifted by 70 or more and contribute nothing.
  The shift counter is a 64-bit \<open>uint\<close>; the statement is for encodings short enough
  that it does not wrap (\<open>7 * length cs < 2^64\<close>).
\<close>

theorem readVarInt64_overlong:
  assumes "10 \<le> length cs"
    and "\<forall>b\<in>set cs. b AND 0x80 \<noteq> 0"
    and "t AND 0x80 = 0"
    and "7 * length cs < 2 ^ 64"
  shows "readVarInt64 (d\<lparr>r := cs @ t # rest\<rparr>) =
         (Inr (of_nat (payload_value (take 10 cs))), d\<lparr>r := rest\<rparr>)"
proof -
  have u: "unat (of_nat (7 * length cs) :: uint64) = 7 * length cs"
    using assms(4) by (simp only: unat_of_nat) simp
  have "64 \<le> 7 * length cs" using assms(1) by simp
  then have z: "push_bit (7 * length cs) (ucast t :: uint64) = 0"
    by (intro bit_word_eqI) (simp add: bit_push_bit_iff)
  have "readVarInt64 (d\<lparr>r := cs @ t # rest\<rparr>) =
        readVarInt64_loop (of_nat (payload_value cs)) (of_nat (7 * length cs))
          (d\<lparr>r := t # rest\<rparr>)"
    unfolding readVarInt64_def
    using loop_groups [OF assms(2), where val = 0 and shift = 0 and d = d and rest = "t # rest"]
      assms(4) by simp
  also have "\<dots> = (Inr (of_nat (payload_value cs)), d\<lparr>r := rest\<rparr>)"
    by (simp only: loop_stop [OF assms(3)] u z) simp
  finally show ?thesis by (simp only: payload_low_groups [OF assms(1)])
qed

theorem readVarInt64_overlong_witness:
  "readVarInt64 (new_decoder
     [0xFF, 0xFF, 0xFF, 0xFF, 0xFF, 0xFF, 0xFF, 0xFF, 0xFF, 0xFF, 0xFF, 0x7F, 0x2A]) =
   (Inr 0xFFFFFFFFFFFFFFFF, new_decoder [0x2A])"
proof -
  have v: "(of_nat (payload_value (take 10
      [0xFF, 0xFF, 0xFF, 0xFF, 0xFF, 0xFF, 0xFF, 0xFF, 0xFF, 0xFF, 0xFF])) :: uint64)
      = 0xFFFFFFFFFFFFFFFF"
    by simp
  show ?thesis
    using readVarInt64_overlong [where cs = "[0xFF, 0xFF, 0xFF, 0xFF, 0xFF, 0xFF, 0xFF, 0xFF, 0xFF, 0xFF, 0xFF]"
      and t = "0x7F" and d = "new_decoder []" and rest = "[0x2A]"]
    by (simp add: new_decoder_def v)
qed


lemma putUvarint_small: "x < 0x80 \<Longrightarrow> putUvarint x = [ucast x]"
  by (subst putUvarint.simps) simp

lemma putUvarint_large:
  "\<not> x < 0x80 \<Longrightarrow> putUvarint x = (ucast x OR 0x80) # putUvarint (drop_bit 7 x)"
  by (subst putUvarint.simps) simp

lemma length_putUvarint:
  "unat x < 2 ^ (7 * Suc k) \<Longrightarrow> length (putUvarint x) \<le> Suc k"
proof (induction k arbitrary: x)
  case 0
  then have "x < 0x80" by (simp add: word_less_nat_alt)
  then show ?case by (simp add: putUvarint_small)
next
  case (Suc k)
  show ?case
  proof (cases "x < 0x80")
    case True
    then show ?thesis by (simp add: putUvarint_small)
  next
    case False
    have "unat (drop_bit 7 x) = drop_bit 7 (unat x)" by (rule unat_drop_bit_eq)
    also have "\<dots> = unat x div 2 ^ 7" by (rule drop_bit_eq_div)
    also have "\<dots> < 2 ^ (7 * Suc k)"
      using Suc.prems by (simp add: less_mult_imp_div_less power_add)
    finally have "length (putUvarint (drop_bit 7 x)) \<le> Suc k" by (rule Suc.IH)
    with False show ?thesis by (simp add: putUvarint_large)
  qed
qed

lemma length_putUvarint_le_10: "length (putUvarint x) \<le> 10"
proof -
  have "unat x < 2 ^ 64" using unsigned_less [of x] by simp
  also have "(2 :: nat) ^ 64 \<le> 2 ^ (7 * Suc 9)" by simp
  finally show ?thesis using length_putUvarint [of x 9] by simp
qed

lemma small_bits:
  assumes "x < (0x80 :: uint64)"
  shows "bit x n \<longleftrightarrow> n < 7 \<and> bit x n"
proof -
  from assms have "x < 2 ^ 7" by simp
  then have "x AND mask 7 = x" by (rule less_mask_eq)
  then have "take_bit 7 x = x" by (simp only: take_bit_eq_mask)
  then have "bit x n = bit (take_bit 7 x) n" by simp
  then show ?thesis by (simp only: bit_take_bit_iff)
qed

lemma bit_0x80: "bit (0x80 :: uint8) n \<longleftrightarrow> n = 7"
proof -
  have "(0x80 :: uint8) = push_bit 7 1" by simp
  then show ?thesis by (simp only: bit_push_bit_iff bit_1_iff) auto
qed

lemma bit_128_int: "bit (128 :: int) n \<longleftrightarrow> n = 7"
proof -
  have "(128 :: int) = push_bit 7 1" by simp
  then show ?thesis by (simp only: bit_push_bit_iff bit_1_iff) auto
qed

lemma small_byte:
  assumes "x < (0x80 :: uint64)"
  shows "(ucast x :: uint8) AND 0x80 = 0" and "(ucast (ucast x :: uint8) :: uint64) = x"
proof -
  note sb = small_bits [OF assms]
  show "(ucast x :: uint8) AND 0x80 = 0"
  proof (rule bit_word_eqI)
    fix n :: nat assume "n < LENGTH(8)"
    show "bit ((ucast x :: uint8) AND 0x80) n = bit (0 :: uint8) n"
      using sb [of 7] by (auto simp add: bit_and_iff bit_ucast_iff bit_128_int)
  qed
  show "(ucast (ucast x :: uint8) :: uint64) = x"
  proof (rule bit_word_eqI)
    fix n :: nat assume "n < LENGTH(64)"
    show "bit (ucast (ucast x :: uint8) :: uint64) n = bit x n"
      using sb [of n] by (auto simp add: bit_ucast_iff)
  qed
qed

lemma large_byte:
  "(ucast x OR 0x80 :: uint8) AND 0x80 \<noteq> 0"
  "(ucast (ucast (x :: uint64) OR 0x80 :: uint8) :: uint64) AND 0x7f = take_bit 7 x"
proof -
  have "bit ((ucast x OR 0x80 :: uint8) AND 0x80) 7"
    by (simp add: bit_and_iff bit_or_iff bit_128_int)
  then show "(ucast x OR 0x80 :: uint8) AND 0x80 \<noteq> 0" by auto
  have m: "(0x7f :: uint64) = mask 7" by (simp add: mask_eq_exp_minus_1)
  show "(ucast (ucast (x :: uint64) OR 0x80 :: uint8) :: uint64) AND 0x7f = take_bit 7 x"
  proof (rule bit_word_eqI)
    fix n :: nat assume "n < LENGTH(64)"
    then show "bit ((ucast (ucast x OR 0x80 :: uint8) :: uint64) AND 0x7f) n = bit (take_bit 7 x) n"
      unfolding m
      by (auto simp add: bit_and_iff bit_or_iff bit_ucast_iff bit_mask_iff bit_take_bit_iff bit_128_int)
  qed
qed

lemma split_low7: "take_bit 7 (x :: uint64) OR push_bit 7 (drop_bit 7 x) = x"
proof (rule bit_word_eqI)
  fix n :: nat assume "n < LENGTH(64)"
  then show "bit (take_bit 7 x OR push_bit 7 (drop_bit 7 x)) n = bit x n"
    by (cases "n < 7") (simp_all add: bit_or_iff bit_take_bit_iff bit_push_bit_iff bit_drop_bit_eq)
qed

lemma loop_putUvarint:
  "unat shift + 7 * length (putUvarint x) < 2 ^ 64 \<Longrightarrow>
   readVarInt64_loop val shift (d\<lparr>r := putUvarint x @ rest\<rparr>) =
   (Inr (val OR push_bit (unat shift) x), d\<lparr>r := rest\<rparr>)"
proof (induction x arbitrary: val shift rule: putUvarint.induct)
  case (1 x)
  show ?case
  proof (cases "x < 0x80")
    case True
    then show ?thesis
      by (simp add: putUvarint_small loop_stop small_byte)
  next
    case False
    note pl = putUvarint_large [OF False]
    from "1.prems" have s7: "unat (shift + 7) = unat shift + 7"
      by (intro unat_shift_plus_7) (simp add: pl)
    with "1.prems" have bound: "unat (shift + 7) + 7 * length (putUvarint (drop_bit 7 x)) < 2 ^ 64"
      by (simp add: pl)
    have "readVarInt64_loop val shift (d\<lparr>r := putUvarint x @ rest\<rparr>) =
          readVarInt64_loop (val OR push_bit (unat shift) (take_bit 7 x)) (shift + 7)
            (d\<lparr>r := putUvarint (drop_bit 7 x) @ rest\<rparr>)"
      by (simp add: pl loop_cont large_byte)
    also have "\<dots> = (Inr ((val OR push_bit (unat shift) (take_bit 7 x))
                           OR push_bit (unat (shift + 7)) (drop_bit 7 x)), d\<lparr>r := rest\<rparr>)"
      by (rule "1.IH" [OF False bound])
    also have "(val OR push_bit (unat shift) (take_bit 7 x))
                 OR push_bit (unat (shift + 7)) (drop_bit 7 x)
               = val OR push_bit (unat shift) (take_bit 7 x OR push_bit 7 (drop_bit 7 x))"
      by (simp only: s7 push_bit_or push_bit_push_bit or.assoc add.commute [of 7])
    finally show ?thesis by (simp only: split_low7)
  qed
qed

text \<open>
  Claim C7. \<open>readVarInt64\<close> decodes what \<open>putUvarint\<close> wrote to the value that was
  encoded and leaves the bytes behind it unread; on an input that ends while every byte
  so far has its continuation bit set, it returns the read failure \<open>io.EOF\<close>.
\<close>

theorem readVarInt64_putUvarint:
  "readVarInt64 (d\<lparr>r := putUvarint x @ rest\<rparr>) = (Inr x, d\<lparr>r := rest\<rparr>) \<and>
   ((\<forall>b\<in>set bs. b AND 0x80 \<noteq> 0) \<longrightarrow>
      readVarInt64 (d\<lparr>r := bs\<rparr>) = (Inl EOF, d\<lparr>r := []\<rparr>))"
proof -
  have "7 * length (putUvarint x) < (2 :: nat) ^ 64"
    using length_putUvarint_le_10 [of x] by simp
  then have "readVarInt64 (d\<lparr>r := putUvarint x @ rest\<rparr>) = (Inr x, d\<lparr>r := rest\<rparr>)"
    unfolding readVarInt64_def
    using loop_putUvarint [where shift = 0 and val = 0 and x = x and d = d and rest = rest]
    by simp
  then show ?thesis by (simp add: readVarInt64_def truncated_loop)
qed

theorem readVarInt64_putUvarint_witness:
  "putUvarint 300 = [0xAC, 0x02] \<and>
   readVarInt64 (new_decoder [0xAC, 0x02, 0x07]) = (Inr 300, new_decoder [0x07]) \<and>
   readVarInt64 (new_decoder [0xAC]) = (Inl EOF, new_decoder [])"
proof -
  have p: "putUvarint 300 = [0xAC, 0x02]" by code_simp
  have t: "\<forall>b\<in>set [0xAC :: uint8]. b AND 0x80 \<noteq> 0" by simp
  show ?thesis
    using readVarInt64_putUvarint [where x = 300 and d = "new_decoder []" and rest = "[0x07]"
        and bs = "[0xAC]"] p t
    by (simp add: new_decoder_def)
qed

section \<open>The empty flag\<close>

text \<open>
  \<open>decoder.empty\<close> is written once, by \<open>Decode\<close>, and read nowhere: every function
  returns the same outcome on a decoder that differs in that field only, and leaves the
  field as it found it. \<open>with_empty\<close> sets the field in the decoder a call returned.
\<close>

definition with_empty :: "bool \<Rightarrow> 'a result \<Rightarrow> 'a result" where
  "with_empty e res = (fst res, (snd res)\<lparr>empty_d := e\<rparr>)"

lemma with_empty_pair [simp]: "with_empty e (x, d) = (x, d\<lparr>empty_d := e\<rparr>)"
  by (simp add: with_empty_def)

lemma read_empty: "read (d\<lparr>empty_d := e\<rparr>) = with_empty e (read d)"
  by (simp add: read_def split: list.splits)

lemma readVarInt64_loop_empty:
  "readVarInt64_loop val shift (d\<lparr>empty_d := e\<rparr>) = with_empty e (readVarInt64_loop val shift d)"
proof (induction val shift d rule: readVarInt64_loop.induct)
  case (1 val shift d)
  obtain y d1 where rd: "read d = (y, d1)" by (cases "read d")
  show ?case
  proof (cases y)
    case (Inl err)
    with rd show ?thesis
      by (simp add: readVarInt64_loop.simps [of val shift d]
          readVarInt64_loop.simps [of val shift "d\<lparr>empty_d := e\<rparr>"] read_empty)
  next
    case (Inr byte)
    with rd "1.IH" [OF rd [symmetric] Inr] show ?thesis
      by (simp add: readVarInt64_loop.simps [of val shift d]
          readVarInt64_loop.simps [of val shift "d\<lparr>empty_d := e\<rparr>"] read_empty)
  qed
qed

lemma readVarInt64_empty: "readVarInt64 (d\<lparr>empty_d := e\<rparr>) = with_empty e (readVarInt64 d)"
  by (simp add: readVarInt64_def readVarInt64_loop_empty)

lemma readVarSInt64_empty: "readVarSInt64 (d\<lparr>empty_d := e\<rparr>) = with_empty e (readVarSInt64 d)"
  by (cases "readVarInt64 d"; cases "fst (readVarInt64 d)")
     (simp_all add: readVarSInt64_def readVarInt64_empty)

lemma readCoords_dims_empty:
  "readCoords_dims js (d\<lparr>empty_d := e\<rparr>) coord bb = with_empty e (readCoords_dims js d coord bb)"
proof (induction js arbitrary: d coord bb)
  case Nil
  then show ?case by simp
next
  case (Cons j js)
  obtain y d1 where rv: "readVarSInt64 d = (y, d1)" by (cases "readVarSInt64 d")
  show ?case
  proof (cases y)
    case (Inl err)
    with rv show ?thesis by (simp add: readVarSInt64_empty)
  next
    case (Inr val)
    have comm: "d1\<lparr>empty_d := e, refpoint := X\<rparr> = d1\<lparr>refpoint := X, empty_d := e\<rparr>" for X
      by simp
    from rv Inr Cons.IH [of "d1\<lparr>refpoint := (refpoint d1)[j := refpoint d1 ! j + val]\<rparr>"]
    show ?thesis by (cases bb) (simp_all add: readVarSInt64_empty Let_def comm)
  qed
qed

lemma readCoords_loop_empty:
  "readCoords_loop n (d\<lparr>empty_d := e\<rparr>) bb = with_empty e (readCoords_loop n d bb)"
proof (induction n arbitrary: d bb)
  case 0
  then show ?case by simp
next
  case (Suc n)
  show ?case
    by (simp add: readCoords_dims_empty Suc.IH split: prod.splits sum.splits)
qed

lemma readCoords_empty: "readCoords (d\<lparr>empty_d := e\<rparr>) sz = with_empty e (readCoords d sz)"
  by (simp add: readCoords_def readCoords_loop_empty)

lemma decodePoint_empty: "decodePoint (d\<lparr>empty_d := e\<rparr>) h = with_empty e (decodePoint d h)"
  by (simp add: decodePoint_def readCoords_empty split: prod.splits sum.splits option.splits)

lemma decodeLineString_empty:
  "decodeLineString (d\<lparr>empty_d := e\<rparr>) h = with_empty e (decodeLineString d h)"
  by (simp add: decodeLineString_def readVarInt64_empty readCoords_empty
      split: prod.splits sum.splits option.splits)

lemma decodePolygon_loop_empty:
  "decodePolygon_loop n (d\<lparr>empty_d := e\<rparr>) = with_empty e (decodePolygon_loop n d)"
proof (induction n arbitrary: d)
  case 0
  then show ?case by simp
next
  case (Suc n)
  show ?case
    by (simp add: readVarInt64_empty readCoords_empty Suc.IH
        split: prod.splits sum.splits err.splits)
qed

lemma decodePolygon_empty:
  "decodePolygon (d\<lparr>empty_d := e\<rparr>) h = with_empty e (decodePolygon d h)"
  by (simp add: decodePolygon_def readVarInt64_empty decodePolygon_loop_empty
      split: prod.splits sum.splits option.splits)


lemma readIDList_loop_empty:
  "readIDList_loop n (d\<lparr>empty_d := e\<rparr>) = with_empty e (readIDList_loop n d)"
proof (induction n arbitrary: d)
  case 0
  then show ?case by simp
next
  case (Suc n)
  show ?case
    by (simp add: readVarSInt64_empty Suc.IH split: prod.splits sum.splits)
qed

lemma readIDList_empty: "readIDList (d\<lparr>empty_d := e\<rparr>) n = with_empty e (readIDList d n)"
  by (simp add: readIDList_def readIDList_loop_empty)

lemma readMHdr_empty: "readMHdr (d\<lparr>empty_d := e\<rparr>) = with_empty e (readMHdr d)"
  by (simp add: readMHdr_def readVarInt64_empty readIDList_empty split: prod.splits sum.splits)

lemma decodeMultiPoint_loop_empty:
  "decodeMultiPoint_loop n (d\<lparr>empty_d := e\<rparr>) = with_empty e (decodeMultiPoint_loop n d)"
proof (induction n arbitrary: d)
  case 0
  then show ?case by simp
next
  case (Suc n)
  show ?case
    by (simp add: decodePoint_empty Suc.IH split: prod.splits sum.splits)
qed

lemma decodeMultiLineString_loop_empty:
  "decodeMultiLineString_loop n (d\<lparr>empty_d := e\<rparr>)
   = with_empty e (decodeMultiLineString_loop n d)"
proof (induction n arbitrary: d)
  case 0
  then show ?case by simp
next
  case (Suc n)
  show ?case
    by (simp add: decodeLineString_empty Suc.IH split: prod.splits sum.splits)
qed

lemma decodeMultiPolygon_loop_empty:
  "decodeMultiPolygon_loop n (d\<lparr>empty_d := e\<rparr>) = with_empty e (decodeMultiPolygon_loop n d)"
proof (induction n arbitrary: d)
  case 0
  then show ?case by simp
next
  case (Suc n)
  show ?case
    by (simp add: decodePolygon_empty Suc.IH split: prod.splits sum.splits)
qed

lemma decodeMultiPoint_empty:
  "decodeMultiPoint (d\<lparr>empty_d := e\<rparr>) h = with_empty e (decodeMultiPoint d h)"
  by (simp add: decodeMultiPoint_def readMHdr_empty decodeMultiPoint_loop_empty
      split: prod.splits sum.splits)

lemma decodeMultiLineString_empty:
  "decodeMultiLineString (d\<lparr>empty_d := e\<rparr>) h = with_empty e (decodeMultiLineString d h)"
  by (simp add: decodeMultiLineString_def readMHdr_empty decodeMultiLineString_loop_empty
      split: prod.splits sum.splits)

lemma decodeMultiPolygon_empty:
  "decodeMultiPolygon (d\<lparr>empty_d := e\<rparr>) h = with_empty e (decodeMultiPolygon d h)"
  by (simp add: decodeMultiPolygon_def readMHdr_empty decodeMultiPolygon_loop_empty
      split: prod.splits sum.splits)

lemma decodeCollection_loop_empty:
  "decodeCollection_loop n (d\<lparr>empty_d := e\<rparr>) = with_empty e (decodeCollection_loop n d)"
proof (induction n arbitrary: d)
  case 0
  then show ?case by (simp add: decodeCollection_loop.simps)
next
  case (Suc n)
  have comm: "d\<lparr>empty_d := e, r := X\<rparr> = d\<lparr>r := X, empty_d := e\<rparr>" for X by simp
  show ?case
    by (subst decodeCollection_loop.simps, subst (2) decodeCollection_loop.simps)
       (simp add: Suc.IH comm split: prod.splits sum.splits)
qed

lemma decodeCollection_empty:
  "decodeCollection (d\<lparr>empty_d := e\<rparr>) h = with_empty e (decodeCollection d h)"
  by (simp add: decodeCollection.simps readMHdr_empty decodeCollection_loop_empty
      split: prod.splits sum.splits)


lemma readExtended_empty:
  "readExtended flag (d\<lparr>empty_d := e\<rparr>) hdr = with_empty e (readExtended flag d hdr)"
  by (simp add: readExtended_def read_empty Let_def split: prod.splits sum.splits)

lemma readSize_empty: "readSize (d\<lparr>empty_d := e\<rparr>) = with_empty e (readSize d)"
  by (simp add: readSize_def readVarInt64_empty split: prod.splits sum.splits)

lemma readBBox_loop_empty:
  "readBBox_loop idxs (d\<lparr>empty_d := e\<rparr>) bb = with_empty e (readBBox_loop idxs d bb)"
proof (induction idxs arbitrary: d bb)
  case Nil
  then show ?case by simp
next
  case (Cons idx idxs)
  show ?case
    by (simp add: readVarSInt64_empty Cons.IH split: prod.splits sum.splits)
qed

lemma readBBox_empty: "readBBox (d\<lparr>empty_d := e\<rparr>) hdr = with_empty e (readBBox d hdr)"
  by (simp add: readBBox_def readBBox_loop_empty split: prod.splits sum.splits)

lemma flip_empty_bit:
  "(f XOR 0x10) AND bbox_mask = f AND bbox_mask"
  "(f XOR 0x10) AND size_mask = f AND size_mask"
  "(f XOR 0x10) AND idlist_mask = f AND idlist_mask"
  "(f XOR 0x10) AND exprec_mask = f AND exprec_mask"
  for f :: uint8
  by (simp_all add: bit.conj_xor_distrib2)

lemma decodeHeader_flip_empty:
  assumes "\<not> (t AND 0x0F > 7 \<or> t AND 0x0F < 1)"
  shows "decodeHeader (t # (f XOR 0x10) # bs)
   = with_empty ((f XOR 0x10) AND empty_mask = empty_mask) (decodeHeader (t # f # bs))"
proof -
  let ?f = "factor_of (sint (precision_of t))"
  let ?e = "(f XOR 0x10) AND empty_mask = empty_mask"
  let ?d = "\<lparr>r = bs, refpoint = replicate 4 0, factors = (replicate 4 0)[0 := ?f, 1 := ?f],
             ndims = 2, bbox_d = (f AND bbox_mask = bbox_mask),
             size_d = (f AND size_mask = size_mask),
             idlist_d = (f AND idlist_mask = idlist_mask),
             empty_d = (f AND empty_mask = empty_mask), length_d = 0\<rparr>"
  let ?h = "\<lparr>gtype = t AND 0x0F, dim = 0, bbox = None\<rparr>"
  let ?rest = "\<lambda>f' d4. (case readExtended f' d4 ?h of
                          (Inl e, d5) \<Rightarrow> (Inl e, d5)
                        | (Inr hdr', d5) \<Rightarrow>
                            (case readSize d5 of
                               (Inl e, d6) \<Rightarrow> (Inl e, d6)
                             | (Inr u, d6) \<Rightarrow> readBBox d6 hdr'))"
  have l: "decodeHeader (t # f # bs) = ?rest f ?d"
    using assms by (simp add: decodeHeader_def read_def new_decoder_def Let_def)
  have r: "decodeHeader (t # (f XOR 0x10) # bs) = ?rest (f XOR 0x10) (?d\<lparr>empty_d := ?e\<rparr>)"
    using assms by (simp add: decodeHeader_def read_def new_decoder_def Let_def flip_empty_bit)
  have x: "readExtended (f XOR 0x10) d hdr = readExtended f d hdr" for d hdr
    by (simp add: readExtended_def flip_empty_bit)
  have "?rest (f XOR 0x10) (?d\<lparr>empty_d := ?e\<rparr>) = with_empty ?e (?rest f ?d)"
    unfolding x readExtended_empty
    by (cases "readExtended f ?d ?h"; cases "fst (readExtended f ?d ?h)";
        cases "readSize (snd (readExtended f ?d ?h))";
        cases "fst (readSize (snd (readExtended f ?d ?h)))")
       (simp_all add: readSize_empty readBBox_empty)
  with l r show ?thesis by simp
qed


lemma wrap_empty:
  "(case with_empty e p of (Inl e', d') \<Rightarrow> (Inl e', r d') | (Inr g, d') \<Rightarrow> (Inr (C g), r d'))
   = (case p of (Inl e', d') \<Rightarrow> (Inl e', r d') | (Inr g, d') \<Rightarrow> (Inr (C g), r d'))"
  by (cases p; cases "fst p") simp_all

lemma Decode_bad_nibble:
  "b AND 0x0F = 0 \<or> b AND 0x0F > 7 \<Longrightarrow> Decode (b # bs) = (Inl ErrUnknownGeom, bs)"
  by (subst Decode.simps) (auto simp: decodeHeader_def read_def new_decoder_def Let_def)

lemma Decode_flip_empty_valid:
  assumes "\<not> (t AND 0x0F > 7 \<or> t AND 0x0F < 1)"
  shows "Decode (t # (f XOR 0x10) # bs) = Decode (t # f # bs)"
proof -
  obtain y d where dh: "decodeHeader (t # f # bs) = (y, d)"
    by (cases "decodeHeader (t # f # bs)")
  show ?thesis
  proof (cases y)
    case (Inl e)
    with dh show ?thesis
      by (simp add: Decode.simps [of "t # f # bs"] Decode.simps [of "t # (f XOR 0x10) # bs"]
          decodeHeader_flip_empty [OF assms])
  next
    case (Inr hdr)
    with dh show ?thesis
      by (simp add: Decode.simps [of "t # f # bs"] Decode.simps [of "t # (f XOR 0x10) # bs"]
          decodeHeader_flip_empty [OF assms]
          decodePoint_empty decodeLineString_empty decodePolygon_empty
          decodeMultiPoint_empty decodeMultiLineString_empty decodeMultiPolygon_empty
          decodeCollection_empty wrap_empty wrap_empty [where C = "\<lambda>g. g"])
  qed
qed

text \<open>
  Claim C9. Two inputs that differ only in bit 4 of the metadata byte give the same
  outcome of \<open>Decode\<close> (the same geometry or the same error) and \<open>Decode\<close> consumes the
  same number of bytes of both. When the geometry kind is known the metadata byte is
  read, and the whole results, the unread bytes included, are equal; when it is not,
  both calls fail on the first byte and leave the differing metadata byte unread.
\<close>

theorem empty_flag_ignored:
  "fst (Decode (t # (f XOR 0x10) # bs)) = fst (Decode (t # f # bs)) \<and>
   length (snd (Decode (t # (f XOR 0x10) # bs))) = length (snd (Decode (t # f # bs))) \<and>
   (1 \<le> t AND 0x0F \<and> t AND 0x0F \<le> 7 \<longrightarrow>
      Decode (t # (f XOR 0x10) # bs) = Decode (t # f # bs))"
proof (cases "t AND 0x0F > 7 \<or> t AND 0x0F < 1")
  case True
  then have "t AND 0x0F = 0 \<or> t AND 0x0F > 7" by auto
  then show ?thesis using True
    by (auto simp add: Decode_bad_nibble [of t] not_le)
next
  case False
  then show ?thesis by (simp add: Decode_flip_empty_valid)
qed

theorem empty_flag_ignored_witness:
  "Decode [0x02, 0x10, 0x02, 0x02, 0x02, 0x08, 0x08] = Decode [0x02, 0x00, 0x02, 0x02, 0x02, 0x08, 0x08] \<and>
   Decode [0x02, 0x00, 0x02, 0x02, 0x02, 0x08, 0x08] =
     (Inr (Geom_LineString
        (LineString (Some \<lparr>gtype = 2, dim = 0, bbox = Some [1, 1, 5, 5]\<rparr>) [[1, 1], [5, 5]])), [])"
proof -
  have x: "(0x00 :: uint8) XOR 0x10 = 0x10" by simp
  have v: "1 \<le> (0x02 :: uint8) AND 0x0F \<and> (0x02 :: uint8) AND 0x0F \<le> 7" by simp
  have d: "Decode [0x02, 0x00, 0x02, 0x02, 0x02, 0x08, 0x08] =
     (Inr (Geom_LineString
        (LineString (Some \<lparr>gtype = 2, dim = 0, bbox = Some [1, 1, 5, 5]\<rparr>) [[1, 1], [5, 5]])), [])"
    by code_simp
  from empty_flag_ignored [of "0x02" "0x00" "[0x02, 0x02, 0x02, 0x08, 0x08]"] v
  have "Decode [0x02, 0x00 XOR 0x10, 0x02, 0x02, 0x02, 0x08, 0x08]
        = Decode [0x02, 0x00, 0x02, 0x02, 0x02, 0x08, 0x08]" by blast
  with d show ?thesis by (simp only: x)
qed

section \<open>Headers and accessors\<close>

text \<open>
  \<open>accessors_defined\<close>: \<open>Type()\<close> returns one of the seven kinds and \<open>Dim()\<close> one of the
  four dimensionalities. \<open>headed\<close> asks that of a geometry and, in a collection, of every
  member in turn. \<open>accessors_panic\<close>: both accessors dereference a nil header.
  \<open>members_headless\<close>: the member structs of a MultiPoint, MultiLineString or
  MultiPolygon (also inside collections) are in that state.
\<close>

definition accessors_defined :: "Geometry \<Rightarrow> bool" where
  "accessors_defined g =
     ((case Type g of None \<Rightarrow> False | Some t \<Rightarrow> POINT \<le> t \<and> t \<le> GEOMETRYCOLLECTION) \<and>
      (case Dim g of None \<Rightarrow> False | Some dm \<Rightarrow> dm \<le> XYZM))"

fun headed :: "Geometry \<Rightarrow> bool" where
  "headed (GeometryCollection h ids gs) =
     (accessors_defined (GeometryCollection h ids gs) \<and> list_all headed gs)"
| "headed g = accessors_defined g"

definition accessors_panic :: "Geometry \<Rightarrow> bool" where
  "accessors_panic g = (Type g = None \<and> Dim g = None)"

fun members_headless :: "Geometry \<Rightarrow> bool" where
  "members_headless (Geom_MultiPoint m) =
     list_all (\<lambda>p. accessors_panic (Geom_Point p)) (Points m)"
| "members_headless (Geom_MultiLineString m) =
     list_all (\<lambda>l. accessors_panic (Geom_LineString l)) (LineStrings m)"
| "members_headless (Geom_MultiPolygon m) =
     list_all (\<lambda>p. accessors_panic (Geom_Polygon p)) (Polygons m)"
| "members_headless (GeometryCollection h ids gs) = list_all members_headless gs"
| "members_headless g = True"


text \<open>The header \<open>Decode\<close> builds holds a kind from 1 to 7 and a dimensionality from 0 to 3.\<close>

definition Hdr_ok :: "Hdr \<Rightarrow> bool" where
  "Hdr_ok hdr = (POINT \<le> gtype hdr \<and> gtype hdr \<le> GEOMETRYCOLLECTION \<and> dim hdr \<le> XYZM)"

lemma readExtended_Hdr_ok:
  "readExtended flag d hdr = (Inr hdr', d') \<Longrightarrow> Hdr_ok (hdr\<lparr>dim := XY\<rparr>) \<Longrightarrow> dim hdr = XY \<Longrightarrow> Hdr_ok hdr'"
  by (auto simp: readExtended_def Let_def Hdr_ok_def split: if_splits prod.splits sum.splits)

lemma readBBox_Hdr_ok: "readBBox d hdr = (Inr hdr', d') \<Longrightarrow> Hdr_ok hdr \<Longrightarrow> Hdr_ok hdr'"
  by (auto simp: readBBox_def Hdr_ok_def split: if_splits prod.splits sum.splits)

lemma one_le_word8: "(x :: uint8) \<noteq> 0 \<Longrightarrow> 1 \<le> x"
proof -
  assume "x \<noteq> 0"
  then have "unat x \<noteq> 0" by (simp add: unat_eq_zero)
  then show ?thesis by (simp add: word_le_nat_alt)
qed

lemma decodeHeader_Hdr_ok: "decodeHeader rd = (Inr hdr, d) \<Longrightarrow> Hdr_ok hdr"
  apply (auto simp: decodeHeader_def Let_def split: if_splits prod.splits sum.splits)
  apply (drule readBBox_Hdr_ok)
   apply (erule readExtended_Hdr_ok)
    apply (auto simp: Hdr_ok_def not_less one_le_word8)
  done


lemma decodePoint_Hdr:
  "decodePoint d h = (Inr p, d') \<Longrightarrow>
   (case h of None \<Rightarrow> Point_Hdr p = None
    | Some hdr \<Rightarrow> \<exists>hdr'. Point_Hdr p = Some hdr' \<and> gtype hdr' = gtype hdr \<and> dim hdr' = dim hdr)"
  by (auto simp: decodePoint_def split: prod.splits sum.splits option.splits)

lemma decodeLineString_Hdr:
  "decodeLineString d h = (Inr l, d') \<Longrightarrow>
   (case h of None \<Rightarrow> LineString_Hdr l = None
    | Some hdr \<Rightarrow>
        \<exists>hdr'. LineString_Hdr l = Some hdr' \<and> gtype hdr' = gtype hdr \<and> dim hdr' = dim hdr)"
  by (auto simp: decodeLineString_def split: prod.splits sum.splits option.splits)

lemma decodePolygon_Hdr: "decodePolygon d h = (Inr p, d') \<Longrightarrow> Polygon_Hdr p = h"
  by (auto simp: decodePolygon_def split: prod.splits sum.splits option.splits if_splits)

lemma decodeMultiPoint_loop_Hdr:
  "decodeMultiPoint_loop n d = (Inr ps, d') \<Longrightarrow> list_all (\<lambda>p. Point_Hdr p = None) ps"
proof (induction n arbitrary: d ps)
  case 0
  then show ?case by simp
next
  case (Suc n)
  then show ?case
    by (auto split: prod.splits sum.splits dest: decodePoint_Hdr)
qed

lemma decodeMultiLineString_loop_Hdr:
  "decodeMultiLineString_loop n d = (Inr ps, d') \<Longrightarrow>
   list_all (\<lambda>p. LineString_Hdr p = None) ps"
proof (induction n arbitrary: d ps)
  case 0
  then show ?case by simp
next
  case (Suc n)
  then show ?case
    by (auto split: prod.splits sum.splits dest: decodeLineString_Hdr)
qed

lemma decodeMultiPolygon_loop_Hdr:
  "decodeMultiPolygon_loop n d = (Inr ps, d') \<Longrightarrow> list_all (\<lambda>p. Polygon_Hdr p = None) ps"
proof (induction n arbitrary: d ps)
  case 0
  then show ?case by simp
next
  case (Suc n)
  then show ?case
    by (auto split: prod.splits sum.splits dest: decodePolygon_Hdr)
qed

lemma decodeMultiPoint_Hdr:
  "decodeMultiPoint d h = (Inr m, d') \<Longrightarrow>
   MultiPoint_Hdr m = h \<and> list_all (\<lambda>p. Point_Hdr p = None) (Points m)"
  by (auto simp: decodeMultiPoint_def split: prod.splits sum.splits if_splits
      dest: decodeMultiPoint_loop_Hdr)

lemma decodeMultiLineString_Hdr:
  "decodeMultiLineString d h = (Inr m, d') \<Longrightarrow>
   MultiLineString_Hdr m = h \<and> list_all (\<lambda>p. LineString_Hdr p = None) (LineStrings m)"
  by (auto simp: decodeMultiLineString_def split: prod.splits sum.splits if_splits
      dest: decodeMultiLineString_loop_Hdr)

lemma decodeMultiPolygon_Hdr:
  "decodeMultiPolygon d h = (Inr m, d') \<Longrightarrow>
   MultiPolygon_Hdr m = h \<and> list_all (\<lambda>p. Polygon_Hdr p = None) (Polygons m)"
  by (auto simp: decodeMultiPolygon_def split: prod.splits sum.splits if_splits
      dest: decodeMultiPolygon_loop_Hdr)

definition geometry_ok :: "Geometry \<Rightarrow> bool" where
  "geometry_ok g = (headed g \<and> members_headless g)"

lemma accessors_defined_iff:
  "accessors_defined g \<longleftrightarrow> (\<exists>hdr. Geometry_Hdr g = Some hdr \<and> Hdr_ok hdr)"
  by (cases "Geometry_Hdr g")
     (simp_all add: accessors_defined_def Type_def Dim_def Hdr_Type_def Hdr_Dim_def Hdr_ok_def)

lemma accessors_panic_iff: "accessors_panic g \<longleftrightarrow> Geometry_Hdr g = None"
  by (cases "Geometry_Hdr g")
     (simp_all add: accessors_panic_def Type_def Dim_def Hdr_Type_def Hdr_Dim_def)


text \<open>
  \<open>returned\<close> names the shape every case of the \<open>switch\<close> of \<open>Decode\<close> has: the value
  of the body decoder as a \<open>Geometry\<close>, with the bytes left in the reader.
\<close>

definition returned :: "('a \<Rightarrow> Geometry) \<Rightarrow> 'a result \<Rightarrow> (err + Geometry) \<times> uint8 list" where
  "returned C p = (case p of (Inl e, d') \<Rightarrow> (Inl e, r d') | (Inr g, d') \<Rightarrow> (Inr (C g), r d'))"

lemma returned_Inr:
  "returned C p = (Inr g, rest) \<longleftrightarrow> (\<exists>x d'. p = (Inr x, d') \<and> g = C x \<and> rest = r d')"
  by (cases p; cases "fst p") (auto simp: returned_def)

lemma Decode_dispatch:
  "decodeHeader rd = (Inr hdr, d) \<Longrightarrow>
   Decode rd =
     (if gtype hdr = POINT then returned Geom_Point (decodePoint d (Some hdr))
      else if gtype hdr = LINESTRING then returned Geom_LineString (decodeLineString d (Some hdr))
      else if gtype hdr = POLYGON then returned Geom_Polygon (decodePolygon d (Some hdr))
      else if gtype hdr = MULTIPOINT then returned Geom_MultiPoint (decodeMultiPoint d (Some hdr))
      else if gtype hdr = MULTILINESTRING
        then returned Geom_MultiLineString (decodeMultiLineString d (Some hdr))
      else if gtype hdr = MULTIPOLYGON
        then returned Geom_MultiPolygon (decodeMultiPolygon d (Some hdr))
      else if gtype hdr = GEOMETRYCOLLECTION
        then returned (\<lambda>g. g) (decodeCollection d (Some hdr))
      else (Inr (Geom_Hdr hdr), r d))"
  by (subst Decode.simps) (simp add: returned_def)

lemma Decode_header_error:
  "decodeHeader rd = (Inl e, d) \<Longrightarrow> Decode rd = (Inl e, r d)"
  by (subst Decode.simps) simp

lemma Decode_geometry_ok:
  shows "\<forall>g rest. Decode rd = (Inr g, rest) \<longrightarrow> geometry_ok g"
    and "\<forall>g d'. decodeCollection d h = (Inr g, d') \<longrightarrow>
           (\<forall>hdr. h = Some hdr \<longrightarrow> Hdr_ok hdr \<longrightarrow> geometry_ok g)"
    and "\<forall>gs d'. decodeCollection_loop n d = (Inr gs, d') \<longrightarrow> list_all geometry_ok gs"
proof (induct rd and d h and n d rule: Decode_decodeCollection_decodeCollection_loop.induct)
  case (1 rd)
  show ?case
  proof (intro allI impI)
    fix g rest assume D: "Decode rd = (Inr g, rest)"
    obtain y d where dh: "decodeHeader rd = (y, d)" by (cases "decodeHeader rd")
    from D dh obtain hdr where y: "y = Inr hdr"
      by (cases y) (simp_all add: Decode_header_error)
    note ok = decodeHeader_Hdr_ok [OF dh [unfolded y]]
    note dd = Decode_dispatch [OF dh [unfolded y]]
    consider (pt) "gtype hdr = 1" | (ls) "gtype hdr = 2" | (pg) "gtype hdr = 3"
      | (mpt) "gtype hdr = 4" | (mls) "gtype hdr = 5" | (mpg) "gtype hdr = 6"
      | (gc) "gtype hdr = 7"
      | (other) "gtype hdr \<noteq> 1" "gtype hdr \<noteq> 2" "gtype hdr \<noteq> 3" "gtype hdr \<noteq> 4"
          "gtype hdr \<noteq> 5" "gtype hdr \<noteq> 6" "gtype hdr \<noteq> 7"
      by blast
    then show "geometry_ok g"
    proof cases
      case pt
      with D dd obtain p d' where "decodePoint d (Some hdr) = (Inr p, d')" "g = Geom_Point p"
        by (auto simp: returned_Inr)
      with ok decodePoint_Hdr [of d "Some hdr" p d'] show ?thesis
        by (auto simp: geometry_ok_def accessors_defined_iff Hdr_ok_def)
    next
      case ls
      with D dd obtain p d' where "decodeLineString d (Some hdr) = (Inr p, d')"
        "g = Geom_LineString p"
        by (auto simp: returned_Inr)
      with ok decodeLineString_Hdr [of d "Some hdr" p d'] show ?thesis
        by (auto simp: geometry_ok_def accessors_defined_iff Hdr_ok_def)
    next
      case pg
      with D dd obtain p d' where "decodePolygon d (Some hdr) = (Inr p, d')"
        "g = Geom_Polygon p"
        by (auto simp: returned_Inr)
      with ok decodePolygon_Hdr [of d "Some hdr" p d'] show ?thesis
        by (auto simp: geometry_ok_def accessors_defined_iff)
    next
      case mpt
      with D dd obtain p d' where "decodeMultiPoint d (Some hdr) = (Inr p, d')"
        "g = Geom_MultiPoint p"
        by (auto simp: returned_Inr)
      with ok decodeMultiPoint_Hdr [of d "Some hdr" p d'] show ?thesis
        by (auto simp: geometry_ok_def accessors_defined_iff accessors_panic_iff)
    next
      case mls
      with D dd obtain p d' where "decodeMultiLineString d (Some hdr) = (Inr p, d')"
        "g = Geom_MultiLineString p"
        by (auto simp: returned_Inr)
      with ok decodeMultiLineString_Hdr [of d "Some hdr" p d'] show ?thesis
        by (auto simp: geometry_ok_def accessors_defined_iff accessors_panic_iff)
    next
      case mpg
      with D dd obtain p d' where "decodeMultiPolygon d (Some hdr) = (Inr p, d')"
        "g = Geom_MultiPolygon p"
        by (auto simp: returned_Inr)
      with ok decodeMultiPolygon_Hdr [of d "Some hdr" p d'] show ?thesis
        by (auto simp: geometry_ok_def accessors_defined_iff accessors_panic_iff)
    next
      case gc
      with D dd obtain d' where "decodeCollection d (Some hdr) = (Inr g, d')"
        by (auto simp: returned_Inr)
      with "1" [OF dh [symmetric] y] gc ok show ?thesis by auto
    next
      case other
      with D dd have "g = Geom_Hdr hdr" by simp
      with ok show ?thesis by (simp add: geometry_ok_def accessors_defined_iff)
    qed
  qed
next
  case (2 d h)
  show ?case
  proof (intro allI impI)
    fix g d' hdr
    assume D: "decodeCollection d h = (Inr g, d')" and h: "h = Some hdr" and ok: "Hdr_ok hdr"
    from D obtain m d1 gs where mh: "readMHdr d = (Inr m, d1)"
      and mk: "makeslice_ok 16 (ngeoms m)"
      and lp: "decodeCollection_loop (nat (ngeoms m)) d1 = (Inr gs, d')"
      and g: "g = GeometryCollection h (idlist m) gs"
      by (auto simp: decodeCollection.simps [of d h] split: prod.splits sum.splits if_splits)
    from "2" [OF mh [symmetric] refl] mk lp have "list_all geometry_ok gs" by auto
    with g h ok show "geometry_ok g"
      by (auto simp: geometry_ok_def accessors_defined_iff list_all_iff)
  qed
next
  case (3 n d)
  show ?case
  proof (intro allI impI)
    fix gs d' assume D: "decodeCollection_loop n d = (Inr gs, d')"
    show "list_all geometry_ok gs"
    proof (cases "n = 0")
      case True
      with D show ?thesis by (simp add: decodeCollection_loop.simps [of 0 d])
    next
      case False
      with D obtain g rd' gs' where dd: "Decode (r d) = (Inr g, rd')"
        and lp: "decodeCollection_loop (n - 1) (d\<lparr>r := rd'\<rparr>) = (Inr gs', d')"
        and gs: "gs = g # gs'"
        by (auto simp: decodeCollection_loop.simps [of n d] split: prod.splits sum.splits)
      from "3"(1) [OF False] dd have "geometry_ok g" by auto
      moreover from "3"(2) [OF False dd [symmetric] refl] lp have "list_all geometry_ok gs'"
        by auto
      ultimately show ?thesis using gs by simp
    qed
  qed
qed


text \<open>
  Claim C4, as amended. Every geometry a successful \<open>Decode\<close> returns, and every member
  of a decoded GeometryCollection, to any depth, has \<open>Type()\<close> defined and among the
  seven kinds and \<open>Dim()\<close> defined and among XY, XYZ, XYM, XYZM. The member Points,
  LineStrings and Polygons of a MultiPoint, MultiLineString or MultiPolygon are built
  with a nil header: on them both accessors are undefined. Geometry values are immutable
  in the model, and no function of the package takes one.
\<close>

theorem decoded_accessors:
  "Decode rd = (Inr g, rest) \<Longrightarrow> headed g \<and> members_headless g"
  using Decode_geometry_ok(1) [of rd] by (simp add: geometry_ok_def)

theorem decoded_accessors_witness:
  "Decode [0x07, 0x04, 0x02, 0x00, 0x02, 0x01, 0x00, 0x00, 0x02,
           0x02, 0x00, 0x02, 0x08, 0x0a, 0x04, 0x04] =
     (Inr (GeometryCollection (Some \<lparr>gtype = 7, dim = 0, bbox = None\<rparr>) [0, 1]
        [Geom_Point (Point (Some \<lparr>gtype = 1, dim = 0, bbox = Some [0, 1, 0, 1]\<rparr>) [0, 1]),
         Geom_LineString
           (LineString (Some \<lparr>gtype = 2, dim = 0, bbox = Some [4, 5, 6, 7]\<rparr>)
              [[4, 5], [6, 7]])]), []) \<and>
   headed (GeometryCollection (Some \<lparr>gtype = 7, dim = 0, bbox = None\<rparr>) [0, 1]
        [Geom_Point (Point (Some \<lparr>gtype = 1, dim = 0, bbox = Some [0, 1, 0, 1]\<rparr>) [0, 1]),
         Geom_LineString
           (LineString (Some \<lparr>gtype = 2, dim = 0, bbox = Some [4, 5, 6, 7]\<rparr>)
              [[4, 5], [6, 7]])])"
proof -
  have d: "Decode [0x07, 0x04, 0x02, 0x00, 0x02, 0x01, 0x00, 0x00, 0x02,
           0x02, 0x00, 0x02, 0x08, 0x0a, 0x04, 0x04] =
     (Inr (GeometryCollection (Some \<lparr>gtype = 7, dim = 0, bbox = None\<rparr>) [0, 1]
        [Geom_Point (Point (Some \<lparr>gtype = 1, dim = 0, bbox = Some [0, 1, 0, 1]\<rparr>) [0, 1]),
         Geom_LineString
           (LineString (Some \<lparr>gtype = 2, dim = 0, bbox = Some [4, 5, 6, 7]\<rparr>)
              [[4, 5], [6, 7]])]), [])"
    by code_simp
  from decoded_accessors [OF d] d show ?thesis by blast
qed

text \<open>
  Claim C4 as stated fails on the MultiPoint of the repository's own test: its two
  member Points carry no header, so \<open>Type()\<close> and \<open>Dim()\<close> panic on them.
\<close>

theorem multipoint_members_have_no_header:
  "Decode [0x04, 0x07, 0x0b, 0x00, 0x04, 0x02, 0x04, 0x02, 0x00, 0x02, 0x00, 0x02, 0x04, 0x04] =
     (Inr (Geom_MultiPoint
        (MultiPoint (Some \<lparr>gtype = 4, dim = 0, bbox = Some [0, 1, 2, 3]\<rparr>) [0, 1]
           [Point None [0, 1], Point None [2, 3]])), []) \<and>
   Type (Geom_Point (Point None [0, 1])) = None \<and>
   Dim (Geom_Point (Point None [0, 1])) = None"
  by code_simp

section \<open>What the readers change\<close>





text \<open>
  \<open>scaled d\<close> is the coordinate the accumulator of \<open>d\<close> stands at: every dimension of
  \<open>refpoint\<close> divided by its factor.
\<close>

definition scaled :: "decoder \<Rightarrow> Coordinate" where
  "scaled d =
     map (\<lambda>j. float64_div (float64_of_int64 (refpoint d ! j)) (float64_of_int64 (factors d ! j)))
       [0..<ndims d]"





section \<open>Coordinates and the bounding box\<close>






definition widen_all :: "nat \<Rightarrow> BBox \<Rightarrow> Coordinate \<Rightarrow> BBox" where
  "widen_all n b c =
     map (\<lambda>j. min (b ! j) (c ! j)) [0..<n] @ map (\<lambda>j. max (b ! (j + n)) (c ! j)) [0..<n]"

lemma length_scaled [simp]: "length (scaled d) = ndims d"
  by (simp add: scaled_def)


lemma length_widen_all [simp]: "length (widen_all n b c) = 2 * n"
  by (simp add: widen_all_def)





























section \<open>Members of multi-geometries\<close>





subsection \<open>A polygon moves the reference point to its last coordinate\<close>



subsection \<open>The member loops\<close>




subsection \<open>The multi-header changes only the input\<close>






end
